theory Spec2Isabelle
  imports Complex_Main
begin

section \<open>Python values\<close>

text \<open>
  A Python \<open>str\<close> is a sequence of Unicode code points; a code point is a natural number.
  Exceptions are values of the type \<open>error\<close>. \<open>RuntimeError\<close> is the exception that the
  name-generation notebook raises itself when it finds no data; all others are raised by the
  interpreter or by a library. \<open>SizeMismatch\<close> stands for the exceptions with which the
  tensor library refuses the shapes of its arguments; they are kept apart from the
  notebook's own exception, whatever class the library gives them.
\<close>

type_synonym uchar = nat
type_synonym ustring = "uchar list"

datatype error =
    RuntimeError
  | ValueError
  | IndexError
  | KeyError
  | OSError
  | UnicodeDecodeError
  | AttributeError
  | NameError
  | SizeMismatch

definition ustr :: "string \<Rightarrow> ustring" where
  "ustr s = map of_char s"

text \<open>Python indexing into a sequence of length \<open>n\<close>: a negative index counts from the end.\<close>

definition py_index :: "nat \<Rightarrow> int \<Rightarrow> nat option" where
  "py_index n i =
     (if 0 \<le> i \<and> i < int n then Some (nat i)
      else if - int n \<le> i \<and> i < 0 then Some (nat (int n + i))
      else None)"

text \<open>\<open>s.find(c)\<close> for a one-character \<open>c\<close>: the first position of \<open>c\<close>, or \<open>-1\<close>.\<close>

fun find_py :: "ustring \<Rightarrow> uchar \<Rightarrow> int" where
  "find_py [] c = -1"
| "find_py (x # xs) c = (if x = c then 0 else (let r = find_py xs c in if r = -1 then -1 else r + 1))"

text \<open>\<open>l.index(x)\<close>: the first position of \<open>x\<close>, or \<open>ValueError\<close>.\<close>

fun index :: "'a list \<Rightarrow> 'a \<Rightarrow> error + nat" where
  "index [] x = Inl ValueError"
| "index (y # ys) x =
     (if y = x then Inr 0 else (case index ys x of Inl e \<Rightarrow> Inl e | Inr i \<Rightarrow> Inr (Suc i)))"

section \<open>Generating names: the alphabet and the conversion to ASCII\<close>

definition ascii_letters :: string where
  "ascii_letters = ''abcdefghijklmnopqrstuvwxyzABCDEFGHIJKLMNOPQRSTUVWXYZ''"

definition all_letters :: ustring where
  "all_letters = ustr (ascii_letters @ '' .,;'' @ [CHR 0x27] @ ''-'')"

definition n_letters :: nat where
  "n_letters = length all_letters + 1"

text \<open>
  The module \<open>unicodedata\<close> is the interpreter's: its two functions used by the notebook,
  \<open>normalize('NFD', _)\<close> and \<open>category\<close>, are parameters of the model.
\<close>

record unicodedata =
  normalize_NFD :: "ustring \<Rightarrow> ustring"
  ud_category :: "uchar \<Rightarrow> string"

definition unicodeToAscii :: "unicodedata \<Rightarrow> ustring \<Rightarrow> ustring" where
  "unicodeToAscii ud s =
     filter (\<lambda>c. ud_category ud c \<noteq> ''Mn'' \<and> c \<in> set all_letters) (normalize_NFD ud s)"

section \<open>Tensors\<close>

text \<open>
  Tensors are nested lists, outermost dimension first. Their entries are real numbers:
  the rounding of the 32-bit floats is not modelled.
\<close>

type_synonym tensor1 = "real list"
type_synonym tensor2 = "real list list"
type_synonym tensor3 = "real list list list"

definition zeros1 :: "nat \<Rightarrow> tensor1" where
  "zeros1 n = replicate n 0"

definition zeros2 :: "nat \<Rightarrow> nat \<Rightarrow> tensor2" where
  "zeros2 m n = replicate m (zeros1 n)"

definition zeros3 :: "nat \<Rightarrow> nat \<Rightarrow> nat \<Rightarrow> tensor3" where
  "zeros3 l m n = replicate l (zeros2 m n)"

text \<open>\<open>t[i][j] = v\<close> and \<open>t[i][j][k] = v\<close>, each index read as Python reads it.\<close>

definition setitem2 :: "tensor2 \<Rightarrow> int \<Rightarrow> int \<Rightarrow> real \<Rightarrow> error + tensor2" where
  "setitem2 t i j v =
     (case py_index (length t) i of
        None \<Rightarrow> Inl IndexError
      | Some i' \<Rightarrow>
          (case py_index (length (t ! i')) j of
             None \<Rightarrow> Inl IndexError
           | Some j' \<Rightarrow> Inr (t[i' := (t ! i')[j' := v]])))"

definition setitem3 :: "tensor3 \<Rightarrow> int \<Rightarrow> int \<Rightarrow> int \<Rightarrow> real \<Rightarrow> error + tensor3" where
  "setitem3 t i j k v =
     (case py_index (length t) i of
        None \<Rightarrow> Inl IndexError
      | Some i' \<Rightarrow>
          (case setitem2 (t ! i') j k v of
             Inl e \<Rightarrow> Inl e
           | Inr s \<Rightarrow> Inr (t[i' := s])))"

section \<open>Generating names: loading the data files\<close>

text \<open>
  The file system is a parameter: \<open>glob\<close> is the result of \<open>glob.glob\<close> for a pattern, and
  \<open>read_text\<close> is the outcome of \<open>open(filename, encoding='utf-8').read()\<close>, which is
  the decoded text or one of the exceptions that opening and decoding raise.
\<close>

datatype read_result = Content ustring | CannotOpen | CannotDecode

record filesystem =
  glob :: "ustring \<Rightarrow> ustring list"
  read_text :: "ustring \<Rightarrow> read_result"

definition findFiles :: "filesystem \<Rightarrow> ustring \<Rightarrow> ustring list" where
  "findFiles fs path = glob fs path"

text \<open>\<open>str.isspace\<close> of one character: the white space that \<open>str.strip()\<close> removes.\<close>

definition isspace :: "uchar \<Rightarrow> bool" where
  "isspace c \<longleftrightarrow>
     (9 \<le> c \<and> c \<le> 13) \<or> (28 \<le> c \<and> c \<le> 32) \<or> c = 133 \<or> c = 160 \<or> c = 5760 \<or>
     (8192 \<le> c \<and> c \<le> 8202) \<or> c = 8232 \<or> c = 8233 \<or> c = 8239 \<or> c = 8287 \<or> c = 12288"

definition strip :: "ustring \<Rightarrow> ustring" where
  "strip s = rev (dropWhile isspace (rev (dropWhile isspace s)))"

text \<open>
  \<open>s.split(sep)\<close> for a one-character separator; \<open>acc\<close> holds the characters of the
  current piece, last one first.
\<close>

fun split_acc :: "uchar \<Rightarrow> ustring \<Rightarrow> ustring \<Rightarrow> ustring list" where
  "split_acc sep acc [] = [rev acc]"
| "split_acc sep acc (c # cs) =
     (if c = sep then rev acc # split_acc sep [] cs else split_acc sep (c # acc) cs)"

definition split :: "ustring \<Rightarrow> uchar \<Rightarrow> ustring list" where
  "split s sep = split_acc sep [] s"

definition newline :: uchar where
  "newline = 10"

definition readLines :: "unicodedata \<Rightarrow> filesystem \<Rightarrow> ustring \<Rightarrow> error + ustring list" where
  "readLines ud fs filename =
     (case read_text fs filename of
        CannotOpen \<Rightarrow> Inl OSError
      | CannotDecode \<Rightarrow> Inl UnicodeDecodeError
      | Content text \<Rightarrow>
          (let lines = split (strip text) newline
           in Inr (map (unicodeToAscii ud) lines)))"

text \<open>
  \<open>os.path.basename\<close> and \<open>os.path.splitext\<close>, as the POSIX version of the module
  defines them. \<open>rfind\<close> is the last position of a character, or \<open>-1\<close>.
\<close>

definition rfind :: "ustring \<Rightarrow> uchar \<Rightarrow> int" where
  "rfind s c = (if c \<in> set s then int (length s) - 1 - find_py (rev s) c else -1)"

definition basename :: "ustring \<Rightarrow> ustring" where
  "basename p = drop (nat (rfind p 47 + 1)) p"

definition splitext :: "ustring \<Rightarrow> ustring \<times> ustring" where
  "splitext p =
     (let sepIndex = rfind p 47; dotIndex = rfind p 46
      in if dotIndex > sepIndex \<and>
            list_ex (\<lambda>c. c \<noteq> 46) (take (nat (dotIndex - (sepIndex + 1))) (drop (nat (sepIndex + 1)) p))
         then (take (nat dotIndex) p, drop (nat dotIndex) p)
         else (p, []))"

text \<open>The notebook's globals after the data has been loaded.\<close>

record names_data =
  category_lines :: "ustring \<rightharpoonup> ustring list"
  all_categories :: "ustring list"
  n_categories :: nat

definition data_path :: ustring where
  "data_path = ustr ''data/names/*.txt''"

text \<open>
  The loop \<open>for filename in findFiles('data/names/*.txt')\<close> over the remaining file names,
  with the two globals it fills.
\<close>

fun load_loop ::
  "unicodedata \<Rightarrow> filesystem \<Rightarrow> ustring list \<Rightarrow> (ustring \<rightharpoonup> ustring list) \<times> ustring list \<Rightarrow>
   error + (ustring \<rightharpoonup> ustring list) \<times> ustring list" where
  "load_loop ud fs [] (cl, ac) = Inr (cl, ac)"
| "load_loop ud fs (filename # rest) (cl, ac) =
     (let category = fst (splitext (basename filename));
          ac' = ac @ [category]
      in case readLines ud fs filename of
           Inl e \<Rightarrow> Inl e
         | Inr lines \<Rightarrow> load_loop ud fs rest (cl(category \<mapsto> lines), ac'))"

text \<open>The whole cell: the loop, then the check that some category was found.\<close>

definition load_names :: "unicodedata \<Rightarrow> filesystem \<Rightarrow> error + names_data" where
  "load_names ud fs =
     (case load_loop ud fs (findFiles fs data_path) (Map.empty, []) of
        Inl e \<Rightarrow> Inl e
      | Inr (cl, ac) \<Rightarrow>
          (let n = length ac
           in if n = 0 then Inl RuntimeError
              else Inr \<lparr>category_lines = cl, all_categories = ac, n_categories = n\<rparr>))"

section \<open>Generating names: encoding a training example\<close>

definition categoryTensor :: "names_data \<Rightarrow> ustring \<Rightarrow> error + tensor2" where
  "categoryTensor d cat =
     (case index (all_categories d) cat of
        Inl e \<Rightarrow> Inl e
      | Inr li \<Rightarrow> setitem2 (zeros2 1 (n_categories d)) 0 (int li) 1)"

text \<open>The loop \<open>for li in range(len(line))\<close> of \<open>inputTensor\<close>, over the remaining indices.\<close>

fun inputTensor_loop :: "ustring \<Rightarrow> nat list \<Rightarrow> tensor3 \<Rightarrow> error + tensor3" where
  "inputTensor_loop line [] t = Inr t"
| "inputTensor_loop line (li # lis) t =
     (case setitem3 t (int li) 0 (find_py all_letters (line ! li)) 1 of
        Inl e \<Rightarrow> Inl e
      | Inr t' \<Rightarrow> inputTensor_loop line lis t')"

definition inputTensor :: "ustring \<Rightarrow> error + tensor3" where
  "inputTensor line =
     inputTensor_loop line [0..<length line] (zeros3 (length line) 1 n_letters)"

definition targetTensor :: "ustring \<Rightarrow> int list" where
  "targetTensor line =
     map (\<lambda>li. find_py all_letters (line ! li)) [1..<length line] @ [int n_letters - 1]"


section \<open>Part-of-speech tagging: the data and the vocabulary\<close>

text \<open>
  A Python \<open>dict\<close> is the list of its items in insertion order, with distinct keys;
  \<open>k in d\<close> is \<open>map_of d k \<noteq> None\<close> and \<open>len(d)\<close> is the length of the list.
\<close>

type_synonym ('k, 'v) pydict = "('k \<times> 'v) list"

definition dict_setitem :: "('k, 'v) pydict \<Rightarrow> 'k \<Rightarrow> 'v \<Rightarrow> ('k, 'v) pydict" where
  "dict_setitem d k v =
     (if map_of d k = None then d @ [(k, v)]
      else map (\<lambda>(k', v'). if k' = k then (k', v) else (k', v')) d)"

definition dict_getitem :: "('k, 'v) pydict \<Rightarrow> 'k \<Rightarrow> error + 'v" where
  "dict_getitem d k = (case map_of d k of None \<Rightarrow> Inl KeyError | Some v \<Rightarrow> Inr v)"

text \<open>\<open>s.split()\<close>: the maximal pieces of \<open>s\<close> without white space.\<close>

fun split_ws_acc :: "ustring \<Rightarrow> ustring \<Rightarrow> ustring list" where
  "split_ws_acc acc [] = (if acc = [] then [] else [rev acc])"
| "split_ws_acc acc (c # cs) =
     (if isspace c then (if acc = [] then split_ws_acc [] cs else rev acc # split_ws_acc [] cs)
      else split_ws_acc (c # acc) cs)"

definition split_ws :: "ustring \<Rightarrow> ustring list" where
  "split_ws s = split_ws_acc [] s"

definition training_data :: "(ustring list \<times> ustring list) list" where
  "training_data =
     [(split_ws (ustr ''The dog ate the apple''), map ustr [''DET'', ''NN'', ''V'', ''DET'', ''NN'']),
      (split_ws (ustr ''Everybody read that book''), map ustr [''NN'', ''V'', ''DET'', ''NN''])]"

text \<open>The loop \<open>for word in sent\<close> and the loop \<open>for sent, tags in training_data\<close> around it.\<close>

fun word_to_ix_sent :: "ustring list \<Rightarrow> (ustring, int) pydict \<Rightarrow> (ustring, int) pydict" where
  "word_to_ix_sent [] word_to_ix = word_to_ix"
| "word_to_ix_sent (word # rest) word_to_ix =
     word_to_ix_sent rest
       (if map_of word_to_ix word = None
        then dict_setitem word_to_ix word (int (length word_to_ix))
        else word_to_ix)"

fun word_to_ix_loop ::
  "(ustring list \<times> ustring list) list \<Rightarrow> (ustring, int) pydict \<Rightarrow> (ustring, int) pydict" where
  "word_to_ix_loop [] word_to_ix = word_to_ix"
| "word_to_ix_loop ((sent, tags) # rest) word_to_ix =
     word_to_ix_loop rest (word_to_ix_sent sent word_to_ix)"

definition word_to_ix :: "(ustring, int) pydict" where
  "word_to_ix = word_to_ix_loop training_data []"


text \<open>The comprehension \<open>[to_ix[w] for w in seq]\<close>: the first missing key raises.\<close>

fun prepare_sequence :: "'k list \<Rightarrow> ('k, int) pydict \<Rightarrow> error + int list" where
  "prepare_sequence [] to_ix = Inr []"
| "prepare_sequence (w # seq) to_ix =
     (case dict_getitem to_ix w of
        Inl e \<Rightarrow> Inl e
      | Inr i \<Rightarrow>
          (case prepare_sequence seq to_ix of
             Inl e \<Rightarrow> Inl e
           | Inr idxs \<Rightarrow> Inr (i # idxs)))"

section \<open>The tensor library\<close>

text \<open>
  The operations of the tensor library that the notebooks call, after its documentation, on
  tensors of two dimensions. A shape that the library refuses is the error
  \<open>SizeMismatch\<close>.
\<close>

definition dot :: "tensor1 \<Rightarrow> tensor1 \<Rightarrow> real" where
  "dot u v = sum_list (map2 (*) u v)"

text \<open>\<open>torch.cat(ts, 1)\<close>: the rows of the tensors side by side.\<close>

fun cat1 :: "tensor2 list \<Rightarrow> error + tensor2" where
  "cat1 [] = Inl SizeMismatch"
| "cat1 [t] = Inr t"
| "cat1 (t # ts) =
     (case cat1 ts of
        Inl e \<Rightarrow> Inl e
      | Inr r \<Rightarrow> if length t = length r then Inr (map2 (@) t r) else Inl SizeMismatch)"

text \<open>\<open>nn.Linear\<close>: a weight of shape \<open>out \<times> in\<close> and a bias of length \<open>out\<close>.\<close>

record linear =
  weight :: tensor2
  bias :: tensor1

definition linear_shape :: "nat \<Rightarrow> nat \<Rightarrow> linear \<Rightarrow> bool" where
  "linear_shape n_in n_out l \<longleftrightarrow>
     length (weight l) = n_out \<and> list_all (\<lambda>w. length w = n_in) (weight l) \<and>
     length (bias l) = n_out"

definition linear_apply :: "linear \<Rightarrow> tensor2 \<Rightarrow> error + tensor2" where
  "linear_apply l x =
     (if list_all (\<lambda>r. list_all (\<lambda>w. length w = length r) (weight l)) x \<and>
         length (bias l) = length (weight l)
      then Inr (map (\<lambda>r. map2 (\<lambda>w b. dot w r + b) (weight l) (bias l)) x)
      else Inl SizeMismatch)"

text \<open>
  \<open>nn.Dropout(0.1)\<close> of a module in training mode, which the notebook never leaves: an
  entry is kept with probability 0.9 and divided by 0.9, or set to 0. The generator of the
  library is an input of the model: the sequence of the masks it will draw, where a mask
  says for a row and a column whether the entry is kept.
\<close>

type_synonym mask = "nat \<Rightarrow> nat \<Rightarrow> bool"
type_synonym torch_rng = "nat \<Rightarrow> mask"

definition dropout_p :: real where
  "dropout_p = 1 / 10"

definition apply_mask :: "mask \<Rightarrow> tensor2 \<Rightarrow> tensor2" where
  "apply_mask m x =
     map (\<lambda>(i, r). map (\<lambda>(j, v). if m i j then v / (1 - dropout_p) else 0) (enumerate 0 r))
       (enumerate 0 x)"

definition dropout :: "torch_rng \<Rightarrow> tensor2 \<Rightarrow> tensor2 \<times> torch_rng" where
  "dropout g x = (apply_mask (g 0) x, (\<lambda>k. g (Suc k)))"

text \<open>\<open>nn.LogSoftmax(dim=1)\<close>\<close>

definition log_softmax :: "tensor2 \<Rightarrow> tensor2" where
  "log_softmax x = map (\<lambda>r. map (\<lambda>v. v - ln (sum_list (map exp r))) r) x"

text \<open>
  \<open>t.topk(1)\<close>: for each row a position of its largest entry. When the largest entry
  occurs more than once the library does not say which of its positions is returned: that
  choice is an input of the model, a number for each row that is reduced into the range of
  the positions of the largest entry.
\<close>

type_synonym topk_ties = "tensor1 \<Rightarrow> nat"

definition largest :: "tensor1 \<Rightarrow> nat list" where
  "largest row = filter (\<lambda>i. list_all (\<lambda>v. v \<le> row ! i) row) [0..<length row]"

definition argmax :: "topk_ties \<Rightarrow> tensor1 \<Rightarrow> nat" where
  "argmax ties row = largest row ! (ties row mod length (largest row))"

definition topk1 :: "topk_ties \<Rightarrow> tensor2 \<Rightarrow> error + nat list list" where
  "topk1 ties t =
     (if list_ex (\<lambda>r. r = []) t then Inl SizeMismatch else Inr (map (\<lambda>r. [argmax ties r]) t))"

text \<open>
  \<open>nn.NLLLoss()\<close>: the mean over the rows of minus the entry at the row's target class.
  The targets of the notebook are at least \<open>-1\<close>, so the ignored class \<open>-100\<close> is left out.
  A target that is no class of the row is refused; the class of that exception depends on
  the version of the library.
\<close>

definition criterion :: "tensor2 \<Rightarrow> int list \<Rightarrow> error + real" where
  "criterion output target =
     (if length output \<noteq> length target then Inl ValueError
      else if list_ex (\<lambda>(r, c). c < 0 \<or> int (length r) \<le> c) (zip output target) then Inl IndexError
      else Inr (- sum_list (map (\<lambda>(r, c). r ! nat c) (zip output target)) / real (length output)))"

text \<open>
  \<open>p.add_(alpha, g)\<close> for tensors of one shape, which a parameter and its gradient are.
\<close>

definition add_1 :: "real \<Rightarrow> tensor1 \<Rightarrow> tensor1 \<Rightarrow> error + tensor1" where
  "add_1 alpha p g =
     (if length p = length g then Inr (map2 (\<lambda>x y. x + alpha * y) p g) else Inl SizeMismatch)"

definition add_2 :: "real \<Rightarrow> tensor2 \<Rightarrow> tensor2 \<Rightarrow> error + tensor2" where
  "add_2 alpha p g =
     (if map length p = map length g
      then Inr (map2 (\<lambda>r s. map2 (\<lambda>x y. x + alpha * y) r s) p g)
      else Inl SizeMismatch)"

section \<open>Generating names: the network\<close>

record rnn =
  hidden_size :: nat
  i2h :: linear
  i2o :: linear
  o2o :: linear

text \<open>
  \<open>RNN(input_size, hidden_size, output_size)\<close> creates the three layers with entries
  that the library draws at random: the constructor is the predicate that says which
  networks it can return.
\<close>

definition RNN :: "names_data \<Rightarrow> nat \<Rightarrow> nat \<Rightarrow> nat \<Rightarrow> rnn \<Rightarrow> bool" where
  "RNN d input_size hidden_sz output_size r \<longleftrightarrow>
     hidden_size r = hidden_sz \<and>
     linear_shape (n_categories d + input_size + hidden_sz) hidden_sz (i2h r) \<and>
     linear_shape (n_categories d + input_size + hidden_sz) output_size (i2o r) \<and>
     linear_shape (hidden_sz + output_size) output_size (o2o r)"

definition forward ::
  "rnn \<Rightarrow> torch_rng \<Rightarrow> tensor2 \<Rightarrow> tensor2 \<Rightarrow> tensor2 \<Rightarrow> error + tensor2 \<times> tensor2 \<times> torch_rng" where
  "forward r g category input hidden =
     (case cat1 [category, input, hidden] of
        Inl e \<Rightarrow> Inl e
      | Inr input_combined \<Rightarrow>
     (case linear_apply (i2h r) input_combined of
        Inl e \<Rightarrow> Inl e
      | Inr hidden' \<Rightarrow>
     (case linear_apply (i2o r) input_combined of
        Inl e \<Rightarrow> Inl e
      | Inr output \<Rightarrow>
     (case cat1 [hidden', output] of
        Inl e \<Rightarrow> Inl e
      | Inr output_combined \<Rightarrow>
     (case linear_apply (o2o r) output_combined of
        Inl e \<Rightarrow> Inl e
      | Inr output' \<Rightarrow>
          (let (output'', g') = dropout g output'
           in Inr (log_softmax output'', hidden', g')))))))"

definition initHidden :: "rnn \<Rightarrow> tensor2" where
  "initHidden r = zeros2 1 (hidden_size r)"

section \<open>Generating names: random training examples\<close>

text \<open>
  The generator of the module \<open>random\<close> is never seeded by the notebook, so its state is an
  input of the model: the sequence of the raw numbers it will draw. \<open>randint(a, b)\<close>
  reduces the next raw number into the range from \<open>a\<close> to \<open>b\<close>.
\<close>

type_synonym py_rng = "nat \<Rightarrow> nat"

definition randint :: "py_rng \<Rightarrow> int \<Rightarrow> int \<Rightarrow> error + int \<times> py_rng" where
  "randint g a b =
     (if b < a then Inl ValueError
      else Inr (a + int (g 0 mod nat (b - a + 1)), (\<lambda>k. g (Suc k))))"

definition randomChoice :: "py_rng \<Rightarrow> 'a list \<Rightarrow> error + 'a \<times> py_rng" where
  "randomChoice g l =
     (case randint g 0 (int (length l) - 1) of
        Inl e \<Rightarrow> Inl e
      | Inr (i, g') \<Rightarrow> Inr (l ! nat i, g'))"

definition randomTrainingPair ::
  "names_data \<Rightarrow> py_rng \<Rightarrow> error + (ustring \<times> ustring) \<times> py_rng" where
  "randomTrainingPair d g =
     (case randomChoice g (all_categories d) of
        Inl e \<Rightarrow> Inl e
      | Inr (category, g') \<Rightarrow>
          (case category_lines d category of
             None \<Rightarrow> Inl KeyError
           | Some lines \<Rightarrow>
               (case randomChoice g' lines of
                  Inl e \<Rightarrow> Inl e
                | Inr (line, g'') \<Rightarrow> Inr ((category, line), g''))))"

definition randomTrainingExample ::
  "names_data \<Rightarrow> py_rng \<Rightarrow> error + (tensor2 \<times> tensor3 \<times> int list) \<times> py_rng" where
  "randomTrainingExample d g =
     (case randomTrainingPair d g of
        Inl e \<Rightarrow> Inl e
      | Inr ((category, line), g') \<Rightarrow>
          (case categoryTensor d category of
             Inl e \<Rightarrow> Inl e
           | Inr category_tensor \<Rightarrow>
               (case inputTensor line of
                  Inl e \<Rightarrow> Inl e
                | Inr input_line_tensor \<Rightarrow>
                    Inr ((category_tensor, input_line_tensor, targetTensor line), g'))))"

section \<open>Generating names: training\<close>

definition learning_rate :: real where
  "learning_rate = 5 / 10000"

text \<open>
  The gradients that \<open>loss.backward()\<close> leaves in the parameters, one per parameter and of
  its shape; \<open>rnn.zero_grad()\<close> has reset them before, so they are the gradients of this
  loss alone. \<open>train\<close> takes the differentiation as a parameter: from the network, the
  generator, the category, the input and the target of a call of \<open>train\<close>, on which the
  summed loss depends, to the gradients of that loss. The differentiation of the library is
  \<open>loss_backward\<close> below.
\<close>

record rnn_grad =
  grad_i2h :: linear
  grad_i2o :: linear
  grad_o2o :: linear

type_synonym autograd =
  "rnn \<Rightarrow> torch_rng \<Rightarrow> tensor2 \<Rightarrow> tensor3 \<Rightarrow> int list list \<Rightarrow> rnn_grad"

subsection \<open>The differentiation of the library\<close>

text \<open>
  Every tensor of a pass of \<open>train\<close> has one row, as the hidden state has, so the
  differentiation is written on rows: a layer applied to a row, dropout of a row with the
  entries that are kept, and the softmax of a row.
\<close>

definition affine :: "linear \<Rightarrow> tensor1 \<Rightarrow> tensor1" where
  "affine l x = map2 (\<lambda>w b. dot w x + b) (weight l) (bias l)"

definition masked :: "(nat \<Rightarrow> bool) \<Rightarrow> tensor1 \<Rightarrow> tensor1" where
  "masked keep v = map (\<lambda>(j, a). if keep j then a / (1 - dropout_p) else 0) (enumerate 0 v)"

definition softmax :: "tensor1 \<Rightarrow> tensor1" where
  "softmax d = map (\<lambda>v. exp v / sum_list (map exp d)) d"

text \<open>
  The backward pass of a layer, from the gradient \<open>g\<close> of its output: the gradient of the
  weight is the outer product of \<open>g\<close> and the input, the gradient of the bias is \<open>g\<close>, and
  the gradient of an input of length \<open>n\<close> is the transposed weight applied to \<open>g\<close>.
\<close>

definition outer :: "tensor1 \<Rightarrow> tensor1 \<Rightarrow> tensor2" where
  "outer g x = map (\<lambda>a. map (\<lambda>b. a * b) x) g"

definition transposed_apply :: "nat \<Rightarrow> tensor2 \<Rightarrow> tensor1 \<Rightarrow> tensor1" where
  "transposed_apply n w g = map (\<lambda>j. sum_list (map2 (\<lambda>row a. a * row ! j) w g)) [0..<n]"

text \<open>
  The gradients are accumulated: \<open>rnn.zero_grad()\<close> sets them to zero, and the backward pass
  of each use of a parameter adds to its gradient.
\<close>

definition add_linear :: "linear \<Rightarrow> linear \<Rightarrow> linear" where
  "add_linear a b =
     \<lparr>weight = map2 (map2 (+)) (weight a) (weight b), bias = map2 (+) (bias a) (bias b)\<rparr>"

definition zero_linear :: "linear \<Rightarrow> linear" where
  "zero_linear l = \<lparr>weight = map (map (\<lambda>v. 0)) (weight l), bias = map (\<lambda>v. 0) (bias l)\<rparr>"

definition zero_grad :: "rnn \<Rightarrow> rnn_grad" where
  "zero_grad r =
     \<lparr>grad_i2h = zero_linear (i2h r), grad_i2o = zero_linear (i2o r),
      grad_o2o = zero_linear (o2o r)\<rparr>"

text \<open>
  A timestep of \<open>train\<close>: the row of the input, the target class, and the entries that
  dropout keeps. \<open>backward_steps\<close> makes the passes of the timesteps from a hidden state, as
  \<open>forward\<close> does, and goes back through them from the last to the first, as
  \<open>loss.backward()\<close> goes back through the operations recorded for the summed loss. Going
  back through a timestep: the gradient of minus the entry of the log-softmax at the target
  is the softmax minus 1 at the target; dropout passes the gradient of the entries it kept,
  divided as they were; the layer \<open>o2o\<close> gives the gradients of the new hidden state and of
  the output of \<open>i2o\<close>; to the former is added the gradient that the later timesteps gave
  for that hidden state; the layers \<open>i2h\<close> and \<open>i2o\<close> give the gradient of the combined
  input, whose last part is the gradient of the hidden state the timestep started from. The
  result is the gradients of the parameters and the gradient of the first hidden state.
\<close>

type_synonym timestep = "tensor1 \<times> nat \<times> (nat \<Rightarrow> bool)"

fun backward_steps :: "rnn \<Rightarrow> tensor1 \<Rightarrow> timestep list \<Rightarrow> tensor1 \<Rightarrow> rnn_grad \<times> tensor1" where
  "backward_steps r c [] h = (zero_grad r, map (\<lambda>v. 0) h)"
| "backward_steps r c ((inp, tgt, keep) # rest) h =
     (let x = c @ inp @ h;
          h' = affine (i2h r) x;
          out = affine (i2o r) x;
          z = h' @ out;
          y = affine (o2o r) z;
          d = masked keep y;
          (gr, gh') = backward_steps r c rest h';
          gd = map (\<lambda>(j, s). if j = tgt then s - 1 else s) (enumerate 0 (softmax d));
          gy = masked keep gd;
          gz = transposed_apply (length z) (weight (o2o r)) gy;
          gh = map2 (+) (take (length h') gz) gh';
          go = drop (length h') gz;
          gx = map2 (+) (transposed_apply (length x) (weight (i2h r)) gh)
                 (transposed_apply (length x) (weight (i2o r)) go)
      in (\<lparr>grad_i2h = add_linear (grad_i2h gr) \<lparr>weight = outer gh x, bias = gh\<rparr>,
           grad_i2o = add_linear (grad_i2o gr) \<lparr>weight = outer go x, bias = go\<rparr>,
           grad_o2o = add_linear (grad_o2o gr) \<lparr>weight = outer gy z, bias = gy\<rparr>\<rparr>,
          drop (length c + length inp) gx))"

text \<open>
  The gradients after \<open>rnn.zero_grad()\<close> and \<open>loss.backward()\<close> in \<open>train\<close>: timestep \<open>i\<close>
  has the row of input \<open>i\<close>, target \<open>i\<close> and the entries kept by draw \<open>i\<close> of the
  generator, and the first hidden state is that of \<open>initHidden\<close>.
\<close>

definition loss_backward :: autograd where
  "loss_backward r g category_tensor input_line_tensor target =
     fst (backward_steps r (category_tensor ! 0)
            (map (\<lambda>i. (input_line_tensor ! i ! 0, nat (target ! i ! 0), g i 0))
               [0..<length input_line_tensor])
            (initHidden r ! 0))"

subsection \<open>The training step\<close>

text \<open>
  The loop \<open>for p in rnn.parameters(): p.data.add_(-learning_rate, p.grad.data)\<close>, over the
  weight and the bias of each layer in the order of their creation.
\<close>

definition update_linear :: "linear \<Rightarrow> linear \<Rightarrow> error + linear" where
  "update_linear l gr =
     (case add_2 (- learning_rate) (weight l) (weight gr) of
        Inl e \<Rightarrow> Inl e
      | Inr w \<Rightarrow>
          (case add_1 (- learning_rate) (bias l) (bias gr) of
             Inl e \<Rightarrow> Inl e
           | Inr b \<Rightarrow> Inr \<lparr>weight = w, bias = b\<rparr>))"

definition update_parameters :: "rnn \<Rightarrow> rnn_grad \<Rightarrow> error + rnn" where
  "update_parameters r gr =
     (case update_linear (i2h r) (grad_i2h gr) of
        Inl e \<Rightarrow> Inl e
      | Inr l1 \<Rightarrow>
          (case update_linear (i2o r) (grad_i2o gr) of
             Inl e \<Rightarrow> Inl e
           | Inr l2 \<Rightarrow>
               (case update_linear (o2o r) (grad_o2o gr) of
                  Inl e \<Rightarrow> Inl e
                | Inr l3 \<Rightarrow> Inr (r\<lparr>i2h := l1, i2o := l2, o2o := l3\<rparr>))))"

text \<open>
  The variable \<open>loss\<close> of \<open>train\<close>: the integer 0 before the loop, a tensor once a loss has
  been added to it.
\<close>

datatype loss_value = IntZero | LossTensor real

definition add_loss :: "loss_value \<Rightarrow> real \<Rightarrow> loss_value" where
  "add_loss loss l = (case loss of IntZero \<Rightarrow> LossTensor (0 + l) | LossTensor x \<Rightarrow> LossTensor (x + l))"

text \<open>
  The loop \<open>for i in range(input_line_tensor.size(0))\<close> of \<open>train\<close> over the remaining
  indices; its variables are \<open>output\<close> (unbound before the first iteration), \<open>hidden\<close>,
  \<open>loss\<close> and the generator of the library.
\<close>

fun train_loop ::
  "rnn \<Rightarrow> tensor2 \<Rightarrow> tensor3 \<Rightarrow> int list list \<Rightarrow> nat list \<Rightarrow>
   tensor2 option \<times> tensor2 \<times> loss_value \<times> torch_rng \<Rightarrow>
   error + tensor2 option \<times> tensor2 \<times> loss_value \<times> torch_rng" where
  "train_loop r category_tensor input_line_tensor target_line_tensor [] vars = Inr vars"
| "train_loop r category_tensor input_line_tensor target_line_tensor (i # rest)
     (output, hidden, loss, g) =
     (case forward r g category_tensor (input_line_tensor ! i) hidden of
        Inl e \<Rightarrow> Inl e
      | Inr (output', hidden', g') \<Rightarrow>
          (if length target_line_tensor \<le> i then Inl IndexError
           else (case criterion output' (target_line_tensor ! i) of
                   Inl e \<Rightarrow> Inl e
                 | Inr l \<Rightarrow>
                     train_loop r category_tensor input_line_tensor target_line_tensor rest
                       (Some output', hidden', add_loss loss l, g'))))"

text \<open>
  \<open>train\<close> returns its pair, and the network and the generator as it leaves them.
  \<open>unsqueeze_(-1)\<close> makes each target a row of one class. With no timestep \<open>loss\<close> is
  still an integer, which has no \<open>backward\<close>.
\<close>

definition train ::
  "autograd \<Rightarrow> rnn \<Rightarrow> torch_rng \<Rightarrow> tensor2 \<Rightarrow> tensor3 \<Rightarrow> int list \<Rightarrow>
   error + (tensor2 \<times> real) \<times> rnn \<times> torch_rng" where
  "train backward r g category_tensor input_line_tensor target_line_tensor =
     (let target = map (\<lambda>c. [c]) target_line_tensor;
          hidden = initHidden r
      in case train_loop r category_tensor input_line_tensor target
                [0..<length input_line_tensor] (None, hidden, IntZero, g) of
           Inl e \<Rightarrow> Inl e
         | Inr (output, hidden', loss, g') \<Rightarrow>
             (case loss of
                IntZero \<Rightarrow> Inl AttributeError
              | LossTensor x \<Rightarrow>
                  (case update_parameters r
                          (backward r g category_tensor input_line_tensor target) of
                     Inl e \<Rightarrow> Inl e
                   | Inr r' \<Rightarrow>
                       (case output of
                          None \<Rightarrow> Inl NameError
                        | Some out \<Rightarrow>
                            Inr ((out, x / real (length input_line_tensor)), r', g')))))"


definition print_every :: nat where
  "print_every = 5000"

definition plot_every :: nat where
  "plot_every = 500"

text \<open>
  The variables of the training cell. \<open>printed\<close> holds the iteration and the loss of each
  line printed (the elapsed time is not modelled). \<open>examples\<close> is not a variable of the
  notebook: it records the arguments of each call of \<open>train\<close>, to say which examples the
  loop has processed.
\<close>

record train_state =
  net :: rnn
  py_random :: py_rng
  torch_random :: torch_rng
  total_loss :: real
  all_losses :: "real list"
  printed :: "(nat \<times> real) list"
  examples :: "(tensor2 \<times> tensor3 \<times> int list) list"

fun training_loop ::
  "autograd \<Rightarrow> names_data \<Rightarrow> nat list \<Rightarrow> train_state \<Rightarrow> error + train_state" where
  "training_loop backward d [] st = Inr st"
| "training_loop backward d (iter # rest) st =
     (case randomTrainingExample d (py_random st) of
        Inl e \<Rightarrow> Inl e
      | Inr ((category_tensor, input_line_tensor, target_line_tensor), pg) \<Rightarrow>
          (case train backward (net st) (torch_random st)
                  category_tensor input_line_tensor target_line_tensor of
             Inl e \<Rightarrow> Inl e
           | Inr ((output, loss), r', tg) \<Rightarrow>
               (let total = total_loss st + loss;
                    printed' = (if iter mod print_every = 0
                                then printed st @ [(iter, loss)] else printed st);
                    plot = (iter mod plot_every = 0)
                in training_loop backward d rest
                     \<lparr>net = r', py_random = pg, torch_random = tg,
                      total_loss = (if plot then 0 else total),
                      all_losses = (if plot then all_losses st @ [total / real plot_every]
                                    else all_losses st),
                      printed = printed',
                      examples = examples st
                        @ [(category_tensor, input_line_tensor, target_line_tensor)]\<rparr>)))"


section \<open>Generating names: sampling\<close>

definition max_length :: nat where
  "max_length = 20"

text \<open>
  The loop \<open>for i in range(max_length)\<close> of \<open>sample\<close> with the number of iterations left;
  its variables are \<open>input\<close>, \<open>hidden\<close>, \<open>output_name\<close> and the generator of the library.
  The choice of \<open>topk\<close> among equal scores is the parameter \<open>ties\<close>.
\<close>

fun sample_loop ::
  "topk_ties \<Rightarrow> rnn \<Rightarrow> tensor2 \<Rightarrow> nat \<Rightarrow> tensor3 \<times> tensor2 \<times> ustring \<times> torch_rng \<Rightarrow>
   error + ustring \<times> torch_rng" where
  "sample_loop ties r category_tensor 0 (input, hidden, output_name, g) = Inr (output_name, g)"
| "sample_loop ties r category_tensor (Suc n) (input, hidden, output_name, g) =
     (if input = [] then Inl IndexError
      else (case forward r g category_tensor (input ! 0) hidden of
              Inl e \<Rightarrow> Inl e
            | Inr (output, hidden', g') \<Rightarrow>
                (case topk1 ties output of
                   Inl e \<Rightarrow> Inl e
                 | Inr topi \<Rightarrow>
                     (if topi = [] \<or> topi ! 0 = [] then Inl IndexError
                      else (let topi' = topi ! 0 ! 0
                            in if topi' = n_letters - 1 then Inr (output_name, g')
                               else if length all_letters \<le> topi' then Inl IndexError
                               else (let letter = [all_letters ! topi'];
                                         output_name' = output_name @ letter
                                     in case inputTensor letter of
                                          Inl e \<Rightarrow> Inl e
                                        | Inr input' \<Rightarrow>
                                            sample_loop ties r category_tensor n
                                              (input', hidden', output_name', g')))))))"

definition sample ::
  "topk_ties \<Rightarrow> names_data \<Rightarrow> rnn \<Rightarrow> torch_rng \<Rightarrow> ustring \<Rightarrow> ustring \<Rightarrow>
   error + ustring \<times> torch_rng" where
  "sample ties d r g category start_letter =
     (case categoryTensor d category of
        Inl e \<Rightarrow> Inl e
      | Inr category_tensor \<Rightarrow>
          (case inputTensor start_letter of
             Inl e \<Rightarrow> Inl e
           | Inr input \<Rightarrow>
               sample_loop ties r category_tensor max_length
                 (input, initHidden r, start_letter, g)))"

section \<open>Part-of-speech tagging: training\<close>




section \<open>Definitions used to state the properties\<close>

text \<open>A row of length \<open>n\<close> that is 1 at position \<open>i\<close> and 0 elsewhere.\<close>

definition one_hot :: "nat \<Rightarrow> nat \<Rightarrow> tensor1" where
  "one_hot n i = (zeros1 n)[i := 1]"

text \<open>
  The position that \<open>inputTensor\<close> sets to 1 for a character: its position in the alphabet,
  and for a character outside the alphabet the last position, which Python's index \<open>-1\<close> denotes.
\<close>

definition letter_slot :: "uchar \<Rightarrow> nat" where
  "letter_slot c = (if c \<in> set all_letters then nat (find_py all_letters c) else 58)"

text \<open>
  Two facts of the Unicode standard about the alphabet, as conditions on the parameter: the
  canonical decomposition leaves a string of alphabet characters unchanged, and no alphabet
  character is a non-spacing mark.
\<close>

definition alphabet_is_plain :: "unicodedata \<Rightarrow> bool" where
  "alphabet_is_plain ud \<longleftrightarrow>
     (\<forall>t. set t \<subseteq> set all_letters \<longrightarrow> normalize_NFD ud t = t) \<and>
     (\<forall>c\<in>set all_letters. ud_category ud c \<noteq> ''Mn'')"

text \<open>\<open>sep.join(pieces)\<close>, the inverse of \<open>split\<close>.\<close>

fun join :: "uchar \<Rightarrow> ustring list \<Rightarrow> ustring" where
  "join sep [] = []"
| "join sep [l] = l"
| "join sep (l # l' # ls) = l @ sep # join sep (l' # ls)"

text \<open>The category that the loading loop derives from a file name.\<close>

definition file_category :: "ustring \<Rightarrow> ustring" where
  "file_category filename = fst (splitext (basename filename))"

text \<open>A dictionary whose keys are distinct and whose values are \<open>0, 1, ...\<close> in order.\<close>

definition dict_ok :: "('k, int) pydict \<Rightarrow> bool" where
  "dict_ok d \<longleftrightarrow> distinct (map fst d) \<and> map snd d = map int [0..<length d]"

subsection \<open>The network, training and the loops\<close>

text \<open>A tensor of \<open>m\<close> rows and \<open>n\<close> columns.\<close>

definition shape2 :: "nat \<Rightarrow> nat \<Rightarrow> tensor2 \<Rightarrow> bool" where
  "shape2 m n t \<longleftrightarrow> length t = m \<and> list_all (\<lambda>r. length r = n) t"

text \<open>
  The top-scoring indices of successive passes of the network from a state (input, hidden
  state, generator) of \<open>sample\<close>, each pass fed with the letter of the previous index;
  the index of the end of the name can only be the last.
\<close>

inductive network_run ::
  "topk_ties \<Rightarrow> rnn \<Rightarrow> tensor2 \<Rightarrow> tensor3 \<times> tensor2 \<times> torch_rng \<Rightarrow> nat list \<Rightarrow> bool"
  for ties :: topk_ties and r :: rnn and category_tensor :: tensor2 where
  run_none: "network_run ties r category_tensor st []"
| run_eos:
    "forward r g category_tensor (input ! 0) hidden = Inr (out, hidden', g') \<Longrightarrow>
     argmax ties (out ! 0) = n_letters - 1 \<Longrightarrow>
     network_run ties r category_tensor (input, hidden, g) [n_letters - 1]"
| run_letter:
    "forward r g category_tensor (input ! 0) hidden = Inr (out, hidden', g') \<Longrightarrow>
     t = argmax ties (out ! 0) \<Longrightarrow> t \<noteq> n_letters - 1 \<Longrightarrow>
     inputTensor [all_letters ! t] = Inr input' \<Longrightarrow>
     network_run ties r category_tensor (input', hidden', g') tops \<Longrightarrow>
     network_run ties r category_tensor (input, hidden, g) (t # tops)"

code_pred network_run .

text \<open>One forward pass per element of the input, each from the hidden state the previous left.\<close>

fun forward_all ::
  "rnn \<Rightarrow> tensor2 \<Rightarrow> tensor2 list \<Rightarrow> tensor2 \<times> torch_rng \<Rightarrow>
   error + tensor2 list \<times> tensor2 \<times> torch_rng" where
  "forward_all r ct [] (h, g) = Inr ([], h, g)"
| "forward_all r ct (x # xs) (h, g) =
     (case forward r g ct x h of
        Inl e \<Rightarrow> Inl e
      | Inr (out, h', g') \<Rightarrow>
          (case forward_all r ct xs (h', g') of
             Inl e \<Rightarrow> Inl e
           | Inr (outs, h'', g'') \<Rightarrow> Inr (out # outs, h'', g'')))"

text \<open>The loss of each output against its target.\<close>

fun losses_all :: "tensor2 list \<Rightarrow> int list list \<Rightarrow> error + real list" where
  "losses_all (out # outs) (t # ts) =
     (case criterion out t of
        Inl e \<Rightarrow> Inl e
      | Inr l \<Rightarrow> (case losses_all outs ts of Inl e \<Rightarrow> Inl e | Inr ls \<Rightarrow> Inr (l # ls)))"
| "losses_all outs ts = Inr []"

text \<open>The parameters of the network and their gradients, each as the list of its entries.\<close>

definition parameters :: "rnn \<Rightarrow> real list list" where
  "parameters r =
     [concat (weight (i2h r)), bias (i2h r), concat (weight (i2o r)), bias (i2o r),
      concat (weight (o2o r)), bias (o2o r)]"

definition gradients :: "rnn_grad \<Rightarrow> real list list" where
  "gradients gr =
     [concat (weight (grad_i2h gr)), bias (grad_i2h gr), concat (weight (grad_i2o gr)),
      bias (grad_i2o gr), concat (weight (grad_o2o gr)), bias (grad_o2o gr)]"

text \<open>A gradient of the shape of its parameter, for a layer and for the network.\<close>

definition same_shape :: "linear \<Rightarrow> linear \<Rightarrow> bool" where
  "same_shape l gr \<longleftrightarrow>
     map length (weight l) = map length (weight gr) \<and> length (bias l) = length (bias gr)"

definition grad_shape :: "rnn \<Rightarrow> rnn_grad \<Rightarrow> bool" where
  "grad_shape r gr \<longleftrightarrow>
     same_shape (i2h r) (grad_i2h gr) \<and> same_shape (i2o r) (grad_i2o gr) \<and>
     same_shape (o2o r) (grad_o2o gr)"

text \<open>A layer after the step \<open>p.data.add_(-learning_rate, p.grad.data)\<close> on its weight and bias.\<close>

definition sgd_linear :: "linear \<Rightarrow> linear \<Rightarrow> linear" where
  "sgd_linear l gr =
     \<lparr>weight = map2 (\<lambda>r s. map2 (\<lambda>x y. x + (- learning_rate) * y) r s) (weight l) (weight gr),
      bias = map2 (\<lambda>x y. x + (- learning_rate) * y) (bias l) (bias gr)\<rparr>"

text \<open>
  The summed loss of \<open>train\<close>: the value of the variable \<open>loss\<close> after the loop, on which
  \<open>backward\<close> is called, as a function of the network.
\<close>

definition summed_loss :: "rnn \<Rightarrow> torch_rng \<Rightarrow> tensor2 \<Rightarrow> tensor3 \<Rightarrow> int list \<Rightarrow> real" where
  "summed_loss r g category_tensor input_line_tensor target_line_tensor =
     (case train_loop r category_tensor input_line_tensor (map (\<lambda>c. [c]) target_line_tensor)
             [0..<length input_line_tensor] (None, initHidden r, IntZero, g) of
        Inr (output, hidden, LossTensor x, g') \<Rightarrow> x
      | _ \<Rightarrow> 0)"

text \<open>
  A layer with one entry of its weight or of its bias replaced. \<open>gr\<close> is the gradient of a
  function \<open>f\<close> of a layer, or of a network, when each of its entries is the derivative of \<open>f\<close>
  with respect to the entry of the parameter at the same position, the other entries fixed.
\<close>

definition set_weight :: "linear \<Rightarrow> nat \<Rightarrow> nat \<Rightarrow> real \<Rightarrow> linear" where
  "set_weight l i j x = l\<lparr>weight := (weight l)[i := (weight l ! i)[j := x]]\<rparr>"

definition set_bias :: "linear \<Rightarrow> nat \<Rightarrow> real \<Rightarrow> linear" where
  "set_bias l i x = l\<lparr>bias := (bias l)[i := x]\<rparr>"

definition layer_gradient :: "(linear \<Rightarrow> real) \<Rightarrow> linear \<Rightarrow> linear \<Rightarrow> bool" where
  "layer_gradient f l gr \<longleftrightarrow>
     (\<forall>i<length (weight l). \<forall>j<length (weight l ! i).
        DERIV (\<lambda>x. f (set_weight l i j x)) (weight l ! i ! j) :> weight gr ! i ! j) \<and>
     (\<forall>i<length (bias l). DERIV (\<lambda>x. f (set_bias l i x)) (bias l ! i) :> bias gr ! i)"

definition is_gradient :: "(rnn \<Rightarrow> real) \<Rightarrow> rnn \<Rightarrow> rnn_grad \<Rightarrow> bool" where
  "is_gradient f r gr \<longleftrightarrow>
     layer_gradient (\<lambda>l. f (r\<lparr>i2h := l\<rparr>)) (i2h r) (grad_i2h gr) \<and>
     layer_gradient (\<lambda>l. f (r\<lparr>i2o := l\<rparr>)) (i2o r) (grad_i2o gr) \<and>
     layer_gradient (\<lambda>l. f (r\<lparr>o2o := l\<rparr>)) (o2o r) (grad_o2o gr)"

text \<open>
  For the proof that \<open>loss_backward\<close> is the gradient of the summed loss: the summed loss of
  a list of timesteps from a hidden state; rows, weights, layers and networks that depend
  on a real number, with the derivative of each entry; the sum of the products of the
  entries of two gradients; and the derivative of a layer applied to a row when both depend
  on a real number.
\<close>

fun steps_loss :: "rnn \<Rightarrow> tensor1 \<Rightarrow> timestep list \<Rightarrow> tensor1 \<Rightarrow> real" where
  "steps_loss r c [] h = 0"
| "steps_loss r c ((inp, tgt, keep) # rest) h =
     (let x = c @ inp @ h;
          h' = affine (i2h r) x;
          out = affine (i2o r) x;
          y = affine (o2o r) (h' @ out);
          d = masked keep y
      in - (d ! tgt - ln (sum_list (map exp d))) + steps_loss r c rest h')"

definition vderiv :: "(real \<Rightarrow> real list) \<Rightarrow> real \<Rightarrow> real list \<Rightarrow> bool" where
  "vderiv f x f' \<longleftrightarrow>
     (\<forall>y. length (f y) = length f') \<and> (\<forall>i<length f'. DERIV (\<lambda>y. f y ! i) x :> f' ! i)"

definition mderiv :: "(real \<Rightarrow> real list list) \<Rightarrow> real \<Rightarrow> real list list \<Rightarrow> bool" where
  "mderiv f x f' \<longleftrightarrow>
     (\<forall>y. length (f y) = length f') \<and> (\<forall>i<length f'. vderiv (\<lambda>y. f y ! i) x (f' ! i))"

definition lderiv :: "(real \<Rightarrow> linear) \<Rightarrow> real \<Rightarrow> linear \<Rightarrow> bool" where
  "lderiv l x l' \<longleftrightarrow>
     mderiv (\<lambda>y. weight (l y)) x (weight l') \<and> vderiv (\<lambda>y. bias (l y)) x (bias l')"

definition rderiv :: "(real \<Rightarrow> rnn) \<Rightarrow> real \<Rightarrow> rnn_grad \<Rightarrow> bool" where
  "rderiv r x r' \<longleftrightarrow>
     lderiv (\<lambda>y. i2h (r y)) x (grad_i2h r') \<and> lderiv (\<lambda>y. i2o (r y)) x (grad_i2o r') \<and>
     lderiv (\<lambda>y. o2o (r y)) x (grad_o2o r')"

definition mdot :: "tensor2 \<Rightarrow> tensor2 \<Rightarrow> real" where
  "mdot a b = sum_list (map2 dot a b)"

definition ldot :: "linear \<Rightarrow> linear \<Rightarrow> real" where
  "ldot a b = mdot (weight a) (weight b) + dot (bias a) (bias b)"

definition gdot :: "rnn_grad \<Rightarrow> rnn_grad \<Rightarrow> real" where
  "gdot a b = ldot (grad_i2h a) (grad_i2h b) + ldot (grad_i2o a) (grad_i2o b)
              + ldot (grad_o2o a) (grad_o2o b)"

definition affine_d :: "linear \<Rightarrow> linear \<Rightarrow> tensor1 \<Rightarrow> tensor1 \<Rightarrow> tensor1" where
  "affine_d l t x x' =
     map (\<lambda>i. dot (weight t ! i) x + dot (weight l ! i) x' + bias t ! i) [0..<length (bias t)]"







subsection \<open>Sample inputs\<close>

text \<open>
  A fragment of the Unicode data: the decompositions of U+00E9 and U+00E0, and the general
  categories of the combining diacritical marks and of ASCII.
\<close>

definition unicodedata_sample :: unicodedata where
  "unicodedata_sample =
     \<lparr>normalize_NFD =
        concat \<circ> map (\<lambda>c. if c = 233 then [101, 769] else if c = 224 then [97, 768] else [c]),
      ud_category = (\<lambda>c. if 768 \<le> c \<and> c \<le> 879 then ''Mn''
                       else if 97 \<le> c \<and> c \<le> 122 then ''Ll''
                       else if 65 \<le> c \<and> c \<le> 90 then ''Lu''
                       else if c = 32 then ''Zs'' else ''Po'')\<rparr>"

text \<open>A data directory with two files, and one with none.\<close>

definition fs_sample :: filesystem where
  "fs_sample =
     \<lparr>glob = (\<lambda>p. if p = data_path
                    then [ustr ''data/names/Irish.txt'', ustr ''data/names/French.txt''] else []),
      read_text = (\<lambda>f. if f = ustr ''data/names/Irish.txt''
                           then Content (ustr ''O'' @ [39, 78, 233, 224] @ ustr ''l'' @ [10] @ ustr ''Adam'' @ [10])
                         else if f = ustr ''data/names/French.txt''
                           then Content (ustr ''Andr'' @ [233, 10] @ ustr ''Roux'')
                         else CannotOpen)\<rparr>"

definition data_sample :: names_data where
  "data_sample =
     \<lparr>category_lines = [ustr ''Irish'' \<mapsto> [[79, 39, 78, 101, 97, 108], ustr ''Adam''],
                         ustr ''French'' \<mapsto> [ustr ''Andre'', ustr ''Roux'']],
      all_categories = [ustr ''Irish'', ustr ''French''],
      n_categories = 2\<rparr>"

definition fs_empty :: filesystem where
  "fs_empty = \<lparr>glob = (\<lambda>p. []), read_text = (\<lambda>f. CannotOpen)\<rparr>"

text \<open>
  Sample networks for the sample data (two categories), with a hidden state of size 1: all
  weights are 0, and so are the biases except that of the last layer, which is \<open>b\<close>.
\<close>

definition linear_const :: "nat \<Rightarrow> tensor1 \<Rightarrow> linear" where
  "linear_const n_in b = \<lparr>weight = replicate (length b) (replicate n_in 0), bias = b\<rparr>"

definition rnn_const :: "tensor1 \<Rightarrow> rnn" where
  "rnn_const b =
     \<lparr>hidden_size = 1,
      i2h = linear_const (2 + n_letters + 1) [0],
      i2o = linear_const (2 + n_letters + 1) (replicate n_letters 0),
      o2o = linear_const (1 + n_letters) b\<rparr>"

text \<open>
  The network that scores every letter alike, the one that prefers the end of the name and
  after it the letter \<open>a\<close>, and the one that prefers the letter \<open>a\<close>.
\<close>

definition rnn_zero :: rnn where
  "rnn_zero = rnn_const (replicate n_letters 0)"

definition rnn_eos :: rnn where
  "rnn_eos = rnn_const (1 # replicate (n_letters - 2) 0 @ [2])"

definition rnn_a :: rnn where
  "rnn_a = rnn_const (1 # replicate (n_letters - 1) 0)"

text \<open>
  A small network for two categories, two classes and a hidden state of size 1. The new
  hidden state is the previous one plus the first entry of the input, the output of
  \<open>i2o\<close> is 0, and the score of the last class is 9/10 of the hidden state, and so the
  hidden state itself after a dropout that keeps it. On an input of two timesteps that both
  have 1 as first entry the hidden states are 1 and 2; \<open>small_p\<close> is the probability that
  the network gives to the last class at the first timestep and \<open>small_q\<close> the one it
  gives to the first class at the second. \<open>grad_small\<close> and \<open>rnn_small_trained\<close> are the
  gradients and the network after \<open>train\<close> on that input with the targets 0 and 1.
\<close>

definition rnn_small :: rnn where
  "rnn_small =
     \<lparr>hidden_size = 1,
      i2h = \<lparr>weight = [[0, 0, 1, 0, 1]], bias = [0]\<rparr>,
      i2o = \<lparr>weight = [[0, 0, 0, 0, 0], [0, 0, 0, 0, 0]], bias = [0, 0]\<rparr>,
      o2o = \<lparr>weight = [[0, 0, 0], [9 / 10, 0, 0]], bias = [0, 0]\<rparr>\<rparr>"

definition small_p :: real where
  "small_p = exp 1 / (1 + exp 1)"

definition small_q :: real where
  "small_q = 1 / (1 + exp 2)"

definition grad_small :: rnn_grad where
  "grad_small =
     \<lparr>grad_i2h = \<lparr>weight = [[0, small_p - 2 * small_q, small_p - 2 * small_q, 0, - small_q]],
                  bias = [small_p - 2 * small_q]\<rparr>,
      grad_i2o = \<lparr>weight = [[0, 0, 0, 0, 0], [0, 0, 0, 0, 0]], bias = [0, 0]\<rparr>,
      grad_o2o = \<lparr>weight = [[(2 * small_q - small_p) / (9 / 10), 0, 0],
                            [(small_p - 2 * small_q) / (9 / 10), 0, 0]],
                  bias = [(small_q - small_p) / (9 / 10), (small_p - small_q) / (9 / 10)]\<rparr>\<rparr>"

definition rnn_small_trained :: rnn where
  "rnn_small_trained =
     \<lparr>hidden_size = 1,
      i2h = \<lparr>weight = [[0, 0 - learning_rate * (small_p - 2 * small_q),
                         1 - learning_rate * (small_p - 2 * small_q), 0,
                         1 - learning_rate * (- small_q)]],
             bias = [0 - learning_rate * (small_p - 2 * small_q)]\<rparr>,
      i2o = \<lparr>weight = [[0, 0, 0, 0, 0], [0, 0, 0, 0, 0]], bias = [0, 0]\<rparr>,
      o2o = \<lparr>weight = [[0 - learning_rate * ((2 * small_q - small_p) / (9 / 10)), 0, 0],
                       [9 / 10 - learning_rate * ((small_p - 2 * small_q) / (9 / 10)), 0, 0]],
             bias = [0 - learning_rate * ((small_q - small_p) / (9 / 10)),
                     0 - learning_rate * ((small_p - small_q) / (9 / 10))]\<rparr>\<rparr>"


text \<open>Generators of the library: the one that keeps every entry, and the one that drops the
  last entry of the first draw only.\<close>

definition keep_all :: torch_rng where
  "keep_all = (\<lambda>k i j. True)"





section \<open>Characters, positions and the alphabet\<close>

lemma all_letters_codes:
  "all_letters = [97..<123] @ [65..<91] @ [32, 46, 44, 59, 39, 45]"
  by (simp add: all_letters_def ascii_letters_def ustr_def upt_rec_numeral)

lemma length_all_letters: "length all_letters = 58"
  by (simp add: all_letters_codes)

lemma n_letters_59: "n_letters = 59"
  by (simp add: n_letters_def length_all_letters)

lemma distinct_all_letters: "distinct all_letters"
  by (simp add: all_letters_codes)

lemma find_py_bounds: "-1 \<le> find_py s c \<and> find_py s c < int (length s)"
  by (induction s) (auto simp: Let_def)

lemma find_py_notin: "c \<notin> set s \<Longrightarrow> find_py s c = -1"
  by (induction s) (auto simp: Let_def)

lemma find_py_in: "c \<in> set s \<Longrightarrow> 0 \<le> find_py s c \<and> s ! nat (find_py s c) = c"
proof (induction s)
  case Nil
  then show ?case by simp
next
  case (Cons x xs)
  show ?case
  proof (cases "x = c")
    case True
    then show ?thesis by simp
  next
    case False
    with Cons have ih: "0 \<le> find_py xs c" "xs ! nat (find_py xs c) = c" by auto
    from ih(1) have "nat (find_py xs c + 1) = Suc (nat (find_py xs c))" by simp
    with False ih show ?thesis by (simp add: Let_def)
  qed
qed

lemma index_in:
  "x \<in> set l \<Longrightarrow> \<exists>i. index l x = Inr i \<and> i < length l \<and> l ! i = x \<and> (\<forall>j<i. l ! j \<noteq> x)"
proof (induction l)
  case Nil
  then show ?case by simp
next
  case (Cons y ys)
  show ?case
  proof (cases "y = x")
    case True
    then show ?thesis by simp
  next
    case False
    with Cons obtain i where
      i: "index ys x = Inr i" "i < length ys" "ys ! i = x" "\<forall>j<i. ys ! j \<noteq> x"
      by auto
    have "\<forall>j<Suc i. (y # ys) ! j \<noteq> x"
      using False i(4) by (auto simp: nth_Cons split: nat.splits)
    with False i show ?thesis by simp
  qed
qed

lemma index_notin: "x \<notin> set l \<Longrightarrow> index l x = Inl ValueError"
  by (induction l) auto

subsection \<open>The encodings\<close>

lemma py_index_letter: "py_index n_letters (find_py all_letters c) = Some (letter_slot c)"
proof (cases "c \<in> set all_letters")
  case True
  with find_py_in [of c all_letters] find_py_bounds [of all_letters c]
  show ?thesis by (simp add: py_index_def letter_slot_def n_letters_59 length_all_letters)
next
  case False
  then show ?thesis
    by (simp add: find_py_notin py_index_def letter_slot_def n_letters_59)
qed

lemma length_zeros1: "length (zeros1 n) = n"
  by (simp add: zeros1_def)

lemma zeros2_one: "zeros2 (Suc 0) n = [zeros1 n]"
  by (simp add: zeros2_def)

lemma py_index_0: "0 < n \<Longrightarrow> py_index n 0 = Some 0"
  by (simp add: py_index_def)

lemma py_index_nat: "k < n \<Longrightarrow> py_index n (int k) = Some k"
  by (simp add: py_index_def)

lemma setitem2_zero_row:
  "setitem2 [zeros1 n_letters] 0 (find_py all_letters c) 1 = Inr [one_hot n_letters (letter_slot c)]"
  by (simp add: setitem2_def py_index_0 length_zeros1 py_index_letter one_hot_def)

lemma inputTensor_loop_gen:
  assumes "k \<le> length line"
    and "t = map (\<lambda>c. [one_hot n_letters (letter_slot c)]) (take k line)
           @ replicate (length line - k) (zeros2 1 n_letters)"
  shows "inputTensor_loop line [k..<length line] t
         = Inr (map (\<lambda>c. [one_hot n_letters (letter_slot c)]) line)"
  using assms
proof (induction "length line - k" arbitrary: k t)
  case 0
  then show ?case by simp
next
  case (Suc m)
  let ?f = "\<lambda>c. [one_hot n_letters (letter_slot c)]"
  from Suc.hyps(2) have k: "k < length line" by simp
  have lt: "length t = length line" using Suc.prems by simp
  have tk: "t ! k = zeros2 1 n_letters"
    using Suc.prems k by (simp add: nth_append)
  have upd: "t[k := ?f (line ! k)]
             = map ?f (take (Suc k) line) @ replicate (length line - Suc k) (zeros2 1 n_letters)"
  proof -
    have "replicate (length line - k) (zeros2 1 n_letters)
          = zeros2 1 n_letters # replicate (length line - Suc k) (zeros2 1 n_letters)"
      using k by (metis Suc_diff_Suc replicate_Suc)
    then show ?thesis
      using Suc.prems(2) k by (simp add: take_Suc_conv_app_nth list_update_append)
  qed
  have step: "setitem3 t (int k) 0 (find_py all_letters (line ! k)) 1 = Inr (t[k := ?f (line ! k)])"
    using k lt tk by (simp add: setitem3_def py_index_nat zeros2_one setitem2_zero_row)
  have "inputTensor_loop line [Suc k..<length line] (t[k := ?f (line ! k)]) = Inr (map ?f line)"
    using Suc.hyps(1) [of "Suc k"] Suc.hyps(2) k upd by simp
  with step k show ?case by (simp add: upt_conv_Cons)
qed

lemma inputTensor_eq:
  "inputTensor line = Inr (map (\<lambda>c. [one_hot n_letters (letter_slot c)]) line)"
  unfolding inputTensor_def
  by (rule inputTensor_loop_gen) (simp_all add: zeros3_def)

lemma one_hot_nth:
  "i < n \<Longrightarrow> k < n \<Longrightarrow> one_hot n i ! k = (if k = i then 1 else 0)"
  by (simp add: one_hot_def zeros1_def)

lemma length_one_hot: "length (one_hot n i) = n"
  by (simp add: one_hot_def zeros1_def)


text \<open>
  Claim C10. Every character of \<open>unicodeToAscii(s)\<close> belongs to \<open>all_letters\<close>, and
  \<open>unicodeToAscii\<close> is idempotent. The first part holds for any Unicode data. The second
  part is about the interpreter's normalisation, a parameter here: it holds when NFD
  leaves a string of alphabet characters as it is and no alphabet character has the
  category \<open>Mn\<close>, which is so in the Unicode standard.
\<close>

theorem unicodeToAscii_closed_idempotent:
  "set (unicodeToAscii ud s) \<subseteq> set all_letters \<and>
   (alphabet_is_plain ud \<longrightarrow>
    unicodeToAscii ud (unicodeToAscii ud s) = unicodeToAscii ud s)"
proof (intro conjI impI)
  show closed: "set (unicodeToAscii ud s) \<subseteq> set all_letters"
    by (auto simp: unicodeToAscii_def)
  assume h: "alphabet_is_plain ud"
  let ?u = "unicodeToAscii ud s"
  from h closed have nfd: "normalize_NFD ud ?u = ?u"
    unfolding alphabet_is_plain_def by blast
  have "filter (\<lambda>c. ud_category ud c \<noteq> ''Mn'' \<and> c \<in> set all_letters) ?u = ?u"
    using h closed unfolding alphabet_is_plain_def by (intro filter_True) blast
  with nfd show "unicodeToAscii ud ?u = ?u"
    by (simp add: unicodeToAscii_def)
qed

lemma concat_map_single: "(\<And>c. c \<in> set t \<Longrightarrow> f c = [c]) \<Longrightarrow> concat (map f t) = t"
  by (induction t) auto

lemma all_letters_range: "c \<in> set all_letters \<Longrightarrow> c < 128"
  by (auto simp: all_letters_codes)

lemma sample_NFD_ascii: "set t \<subseteq> set all_letters \<Longrightarrow> normalize_NFD unicodedata_sample t = t"
proof -
  assume a: "set t \<subseteq> set all_letters"
  have "\<And>c. c \<in> set t \<Longrightarrow> c \<noteq> 233 \<and> c \<noteq> 224"
    using a all_letters_range by fastforce
  then show ?thesis
    by (simp add: unicodedata_sample_def concat_map_single)
qed

lemma sample_category_ascii: "c \<in> set all_letters \<Longrightarrow> ud_category unicodedata_sample c \<noteq> ''Mn''"
  using all_letters_range [of c] by (simp add: unicodedata_sample_def)

lemma sample_ONeal:
  "unicodeToAscii unicodedata_sample [79, 39, 78, 233, 224, 108] = [79, 39, 78, 101, 97, 108]"
  by (simp add: unicodeToAscii_def unicodedata_sample_def all_letters_codes)

text \<open>
  The sample Unicode data satisfies both conditions; the input is the notebook's own example,
  \<open>O'N\<close>, U+00E9, U+00E0, \<open>l\<close>.
\<close>

theorem unicodeToAscii_closed_idempotent_witness:
  "alphabet_is_plain unicodedata_sample \<and>
   unicodeToAscii unicodedata_sample [79, 39, 78, 233, 224, 108] = [79, 39, 78, 101, 97, 108] \<and>
   set [79, 39, 78, 101, 97, 108] \<subseteq> set all_letters \<and>
   unicodeToAscii unicodedata_sample [79, 39, 78, 101, 97, 108] = [79, 39, 78, 101, 97, 108]"
proof -
  have p: "alphabet_is_plain unicodedata_sample"
    using sample_NFD_ascii sample_category_ascii by (simp add: alphabet_is_plain_def)
  from unicodeToAscii_closed_idempotent [of unicodedata_sample "[79, 39, 78, 233, 224, 108]"] p
  show ?thesis by (simp only: sample_ONeal)
qed

text \<open>
  Claim C9. For a non-empty line, \<open>targetTensor(line)\<close> has as many entries as the line
  has characters, its last entry is the end-of-sequence index \<open>n_letters - 1\<close>, its entry
  at \<open>i\<close> is the position of the next character \<open>line[i+1]\<close> in the alphabet, and
  \<open>inputTensor(line)\<close> has the same first dimension.
\<close>

theorem targetTensor_aligned:
  "line \<noteq> [] \<longrightarrow>
     length (targetTensor line) = length line \<and>
     last (targetTensor line) = int n_letters - 1 \<and>
     (\<forall>i. i + 1 < length line \<longrightarrow> targetTensor line ! i = find_py all_letters (line ! (i + 1))) \<and>
     (\<exists>t. inputTensor line = Inr t \<and> length t = length (targetTensor line))"
proof
  assume ne: "line \<noteq> []"
  then have "0 < length line" by simp
  then have len: "length (targetTensor line) = length line"
    by (simp add: targetTensor_def)
  have nth: "\<forall>i. i + 1 < length line \<longrightarrow> targetTensor line ! i = find_py all_letters (line ! (i + 1))"
  proof (intro allI impI)
    fix i assume i: "i + 1 < length line"
    then have "i < length [1..<length line]" by simp
    then have "targetTensor line ! i = find_py all_letters (line ! ([1..<length line] ! i))"
      by (simp add: targetTensor_def nth_append)
    with i show "targetTensor line ! i = find_py all_letters (line ! (i + 1))" by simp
  qed
  have "last (targetTensor line) = int n_letters - 1"
    by (simp add: targetTensor_def)
  with len nth show "length (targetTensor line) = length line \<and>
     last (targetTensor line) = int n_letters - 1 \<and>
     (\<forall>i. i + 1 < length line \<longrightarrow> targetTensor line ! i = find_py all_letters (line ! (i + 1))) \<and>
     (\<exists>t. inputTensor line = Inr t \<and> length t = length (targetTensor line))"
    by (simp add: inputTensor_eq)
qed

lemma find_py_Adam: "map (find_py all_letters) [65, 100, 97, 109] = [26, 3, 0, 12]"
  by (simp add: all_letters_codes)

text \<open>
  The line \<open>Adam\<close>.
\<close>

theorem targetTensor_aligned_witness:
  "[65, 100, 97, 109] \<noteq> ([] :: ustring) \<and> targetTensor [65, 100, 97, 109] = [3, 0, 12, 58] \<and>
   (\<exists>t. inputTensor [65, 100, 97, 109] = Inr t \<and> length t = 4)"
proof -
  have tt: "targetTensor [65, 100, 97, 109] = [3, 0, 12, 58]"
    by (simp add: targetTensor_def upt_conv_Cons all_letters_codes n_letters_59)
  have four: "Suc (Suc (Suc (Suc 0))) = 4" by simp
  from targetTensor_aligned [of "[65, 100, 97, 109]"] tt show ?thesis
    by (simp add: four)
qed


subsection \<open>strip and split\<close>

lemma strip_decomp:
  "\<exists>pre suf. s = pre @ strip s @ suf \<and> (\<forall>c\<in>set pre. isspace c) \<and> (\<forall>c\<in>set suf. isspace c)"
proof -
  let ?r = "dropWhile isspace s"
  let ?pre = "takeWhile isspace s"
  let ?suf = "rev (takeWhile isspace (rev ?r))"
  have "?r = rev (takeWhile isspace (rev ?r) @ dropWhile isspace (rev ?r))"
    by (simp only: takeWhile_dropWhile_id rev_rev_ident)
  then have r: "?r = strip s @ ?suf" by (simp only: rev_append strip_def)
  have "s = ?pre @ ?r" by simp
  with r have "s = ?pre @ strip s @ ?suf" by simp
  moreover have "\<forall>c\<in>set ?pre. isspace c" by (auto dest: set_takeWhileD)
  moreover have "\<forall>c\<in>set ?suf. isspace c" by (auto dest: set_takeWhileD)
  ultimately show ?thesis by blast
qed

lemma strip_ends:
  "strip s \<noteq> [] \<Longrightarrow> \<not> isspace (hd (strip s)) \<and> \<not> isspace (last (strip s))"
proof -
  assume ne: "strip s \<noteq> []"
  let ?r = "dropWhile isspace s"
  let ?d = "dropWhile isspace (rev ?r)"
  from ne have d: "?d \<noteq> []" by (simp add: strip_def)
  then have "\<not> isspace (hd ?d)" by (rule hd_dropWhile)
  with d have l: "\<not> isspace (last (strip s))" by (simp add: strip_def last_rev)
  have "?r = [] \<Longrightarrow> ?d = []" by (simp only: rev.simps dropWhile.simps)
  with d have rne: "?r \<noteq> []" by blast
  then have hr: "\<not> isspace (hd ?r)" by (rule hd_dropWhile)
  have "?r = rev (takeWhile isspace (rev ?r) @ ?d)"
    by (simp only: takeWhile_dropWhile_id rev_rev_ident)
  then have "?r = strip s @ rev (takeWhile isspace (rev ?r))"
    by (simp only: rev_append strip_def)
  with ne have "hd ?r = hd (strip s)" by (metis hd_append2)
  with hr l show ?thesis by simp
qed

lemma split_acc_ne: "split_acc sep acc s \<noteq> []"
  by (induction s arbitrary: acc) auto

lemma join_Cons: "ls \<noteq> [] \<Longrightarrow> join sep (l # ls) = l @ sep # join sep ls"
  by (cases ls) auto

lemma join_split_acc: "join sep (split_acc sep acc s) = rev acc @ s"
proof (induction s arbitrary: acc)
  case Nil
  then show ?case by simp
next
  case (Cons c cs)
  show ?case
  proof (cases "c = sep")
    case True
    have "join sep (rev acc # split_acc sep [] cs) = rev acc @ sep # join sep (split_acc sep [] cs)"
      by (rule join_Cons) (rule split_acc_ne)
    with True Cons.IH [of "[]"] show ?thesis by simp
  next
    case False
    with Cons.IH [of "c # acc"] show ?thesis by simp
  qed
qed

lemma split_acc_no_sep:
  "sep \<notin> set acc \<Longrightarrow> l \<in> set (split_acc sep acc s) \<Longrightarrow> sep \<notin> set l"
proof (induction s arbitrary: acc)
  case Nil
  then show ?case by simp
next
  case (Cons c cs)
  show ?case
  proof (cases "c = sep")
    case True
    with Cons.prems have "l = rev acc \<or> l \<in> set (split_acc sep [] cs)" by simp
    then show ?thesis
    proof
      assume "l = rev acc"
      with Cons.prems(1) show ?thesis by simp
    next
      assume "l \<in> set (split_acc sep [] cs)"
      with Cons.IH [of "[]"] show ?thesis by simp
    qed
  next
    case False
    with Cons.prems have "l \<in> set (split_acc sep (c # acc) cs)" by simp
    with Cons.IH [of "c # acc"] False Cons.prems(1) show ?thesis by simp
  qed
qed

lemma split_acc_join:
  "ls \<noteq> [] \<Longrightarrow> \<forall>l\<in>set ls. sep \<notin> set l \<Longrightarrow>
   split_acc sep acc (join sep ls) = (rev acc @ hd ls) # tl ls"
proof (induction ls arbitrary: acc)
  case Nil
  then show ?case by simp
next
  case (Cons l ls)
  have pre: "\<And>acc t. sep \<notin> set l \<Longrightarrow> split_acc sep acc (l @ sep # t) = (rev acc @ l) # split_acc sep [] t"
    by (induction l) auto
  have last_piece: "\<And>acc. sep \<notin> set l \<Longrightarrow> split_acc sep acc l = [rev acc @ l]"
    by (induction l) auto
  show ?case
  proof (cases ls)
    case Nil
    with Cons.prems last_piece show ?thesis by simp
  next
    case (Cons l' ls')
    with Cons.prems Cons.IH [of "[]"] pre show ?thesis by simp
  qed
qed

lemma split_spec:
  "join sep (split s sep) = s \<and> split s sep \<noteq> [] \<and> (\<forall>l\<in>set (split s sep). sep \<notin> set l)"
  using join_split_acc [of sep "[]" s] split_acc_ne [of sep "[]" s] split_acc_no_sep [of sep "[]" _ s]
  by (auto simp: split_def)

lemma split_unique:
  "ls \<noteq> [] \<Longrightarrow> \<forall>l\<in>set ls. sep \<notin> set l \<Longrightarrow> split (join sep ls) sep = ls"
  using split_acc_join [of ls sep "[]"] by (simp add: split_def)


subsection \<open>basename and splitext\<close>

lemma find_py_append_notin: "c \<notin> set xs \<Longrightarrow> find_py (xs @ c # ys) c = int (length xs)"
  by (induction xs) (auto simp: Let_def)

lemma rfind_last: "c \<notin> set b \<Longrightarrow> rfind (a @ c # b) c = int (length a)"
  using find_py_append_notin [of c "rev b" "rev a"] by (simp add: rfind_def)

lemma rfind_notin: "c \<notin> set s \<Longrightarrow> rfind s c = -1"
  by (simp add: rfind_def)

lemma basename_dir: "47 \<notin> set name \<Longrightarrow> basename (dir @ 47 # name) = name"
proof -
  assume a: "47 \<notin> set name"
  have "nat (int (length dir) + 1) = Suc (length dir)" by simp
  with a show ?thesis by (simp add: basename_def rfind_last)
qed

lemma basename_plain: "47 \<notin> set name \<Longrightarrow> basename name = name"
  by (simp add: basename_def rfind_notin)

lemma splitext_name:
  assumes "47 \<notin> set name" and "\<exists>c\<in>set name. c \<noteq> 46" and "46 \<notin> set ext" and "47 \<notin> set ext"
  shows "splitext (name @ 46 # ext) = (name, 46 # ext)"
proof -
  have sep: "rfind (name @ 46 # ext) 47 = -1"
    using assms by (simp add: rfind_notin)
  have dot: "rfind (name @ 46 # ext) 46 = int (length name)"
    using assms by (simp add: rfind_last)
  from assms(2) have "list_ex (\<lambda>c. c \<noteq> 46) name" by (simp add: list_ex_iff)
  with sep dot show ?thesis by (simp add: splitext_def)
qed

lemma file_category_txt:
  assumes "47 \<notin> set name" and "\<exists>c\<in>set name. c \<noteq> 46" and "46 \<notin> set ext" and "47 \<notin> set ext"
  shows "file_category (dir @ 47 # name @ 46 # ext) = name"
proof -
  have "basename (dir @ 47 # name @ 46 # ext) = name @ 46 # ext"
    using assms by (simp add: basename_dir)
  with assms show ?thesis by (simp add: file_category_def splitext_name)
qed

subsection \<open>The loading loop\<close>

lemma readLines_errors: "readLines ud fs f = Inl e \<Longrightarrow> e = OSError \<or> e = UnicodeDecodeError"
  by (auto simp: readLines_def Let_def split: read_result.splits)

lemma load_loop_errors:
  "load_loop ud fs files (cl, ac) = Inl e \<Longrightarrow> e = OSError \<or> e = UnicodeDecodeError"
proof (induction files arbitrary: cl ac)
  case Nil
  then show ?case by simp
next
  case (Cons f files)
  show ?case
  proof (cases "readLines ud fs f")
    case (Inl e')
    with Cons.prems have "e = e'" by (simp add: Let_def)
    with Inl readLines_errors show ?thesis by blast
  next
    case (Inr ls)
    with Cons.prems Cons.IH show ?thesis by (simp add: Let_def)
  qed
qed

lemma load_loop_categories:
  "load_loop ud fs files (cl, ac) = Inr (cl', ac') \<Longrightarrow> ac' = ac @ map file_category files"
proof (induction files arbitrary: cl ac)
  case Nil
  then show ?case by simp
next
  case (Cons f files)
  show ?case
  proof (cases "readLines ud fs f")
    case (Inl e)
    with Cons.prems show ?thesis by (simp add: Let_def)
  next
    case (Inr ls)
    with Cons.prems have
      "load_loop ud fs files (cl(file_category f \<mapsto> ls), ac @ [file_category f]) = Inr (cl', ac')"
      by (simp add: Let_def file_category_def)
    then have "ac' = (ac @ [file_category f]) @ map file_category files"
      by (rule Cons.IH)
    then show ?thesis by simp
  qed
qed

lemma load_loop_keeps:
  "load_loop ud fs files (cl, ac) = Inr (cl', ac') \<Longrightarrow> k \<notin> file_category ` set files \<Longrightarrow>
   cl' k = cl k"
proof (induction files arbitrary: cl ac)
  case Nil
  then show ?case by simp
next
  case (Cons f files)
  show ?case
  proof (cases "readLines ud fs f")
    case (Inl e)
    with Cons.prems show ?thesis by (simp add: Let_def)
  next
    case (Inr ls)
    with Cons.prems have
      "load_loop ud fs files (cl(file_category f \<mapsto> ls), ac @ [file_category f]) = Inr (cl', ac')"
      by (simp add: Let_def file_category_def)
    with Cons.IH Cons.prems(2) have "cl' k = (cl(file_category f \<mapsto> ls)) k" by auto
    with Cons.prems(2) show ?thesis by auto
  qed
qed

lemma load_loop_stores:
  assumes "load_loop ud fs (pre @ f # post) (cl, ac) = Inr (cl', ac')"
    and "file_category f \<notin> file_category ` set post"
  shows "\<exists>ls. readLines ud fs f = Inr ls \<and> cl' (file_category f) = Some ls"
  using assms
proof (induction pre arbitrary: cl ac)
  case Nil
  show ?case
  proof (cases "readLines ud fs f")
    case (Inl e)
    with Nil show ?thesis by (simp add: Let_def)
  next
    case (Inr ls)
    with Nil have
      "load_loop ud fs post (cl(file_category f \<mapsto> ls), ac @ [file_category f]) = Inr (cl', ac')"
      by (simp add: Let_def file_category_def)
    from this Nil(2) have "cl' (file_category f) = (cl(file_category f \<mapsto> ls)) (file_category f)"
      by (rule load_loop_keeps)
    with Inr show ?thesis by simp
  qed
next
  case (Cons g pre)
  show ?case
  proof (cases "readLines ud fs g")
    case (Inl e)
    with Cons.prems show ?thesis by (simp add: Let_def)
  next
    case (Inr ls)
    with Cons.prems have
      "load_loop ud fs (pre @ f # post) (cl(file_category g \<mapsto> ls), ac @ [file_category g]) = Inr (cl', ac')"
      by (simp add: Let_def file_category_def)
    with Cons.IH Cons.prems(2) show ?thesis by blast
  qed
qed

lemma load_names_Inr:
  "load_names ud fs = Inr d \<Longrightarrow>
     \<exists>cl. load_loop ud fs (findFiles fs data_path) (Map.empty, []) = Inr (cl, all_categories d) \<and>
          category_lines d = cl \<and>
          all_categories d = map file_category (findFiles fs data_path) \<and>
          n_categories d = length (all_categories d) \<and> n_categories d \<noteq> 0"
proof -
  assume a: "load_names ud fs = Inr d"
  then obtain cl ac where l: "load_loop ud fs (findFiles fs data_path) (Map.empty, []) = Inr (cl, ac)"
    by (cases "load_loop ud fs (findFiles fs data_path) (Map.empty, [])")
       (auto simp: load_names_def)
  with a have d: "length ac \<noteq> 0" "d = \<lparr>category_lines = cl, all_categories = ac, n_categories = length ac\<rparr>"
    by (auto simp: load_names_def Let_def split: if_splits)
  from l have "ac = map file_category (findFiles fs data_path)"
    using load_loop_categories by fastforce
  with l d show ?thesis by simp
qed

text \<open>
  The only \<open>raise\<close> statement of the programs is the one of the loader. None of the other
  operations returns \<open>RuntimeError\<close>: whatever they raise comes from the interpreter or
  the library.
\<close>

lemma index_no_RuntimeError: "index l x \<noteq> Inl RuntimeError"
  by (induction l) (auto split: sum.splits)

lemma setitem2_no_RuntimeError: "setitem2 t i j v \<noteq> Inl RuntimeError"
  by (auto simp: setitem2_def split: option.splits)

lemma categoryTensor_no_RuntimeError: "categoryTensor d c \<noteq> Inl RuntimeError"
  using index_no_RuntimeError [of "all_categories d" c]
  by (auto simp: categoryTensor_def setitem2_no_RuntimeError split: sum.splits)

lemma inputTensor_no_RuntimeError: "inputTensor l \<noteq> Inl RuntimeError"
  by (simp add: inputTensor_eq)

lemma randomChoice_no_RuntimeError: "randomChoice g l \<noteq> Inl RuntimeError"
  by (auto simp: randomChoice_def randint_def split: sum.splits if_splits)

lemma randomTrainingPair_no_RuntimeError: "randomTrainingPair d g \<noteq> Inl RuntimeError"
  using randomChoice_no_RuntimeError
  by (auto simp: randomTrainingPair_def split: sum.splits option.splits)

lemma randomTrainingExample_no_RuntimeError: "randomTrainingExample d g \<noteq> Inl RuntimeError"
  using randomTrainingPair_no_RuntimeError categoryTensor_no_RuntimeError inputTensor_no_RuntimeError
  by (auto simp: randomTrainingExample_def split: sum.splits)

lemma cat1_no_RuntimeError: "cat1 ts \<noteq> Inl RuntimeError"
  by (induction ts rule: cat1.induct) (auto split: sum.splits)

lemma linear_apply_no_RuntimeError: "linear_apply l x \<noteq> Inl RuntimeError"
  by (simp add: linear_apply_def)

lemma forward_no_RuntimeError: "forward r g c i h \<noteq> Inl RuntimeError"
  using cat1_no_RuntimeError linear_apply_no_RuntimeError
  by (auto simp: forward_def dropout_def split: sum.splits)

lemma criterion_no_RuntimeError: "criterion out t \<noteq> Inl RuntimeError"
  by (simp add: criterion_def)

lemma train_loop_no_RuntimeError: "train_loop r c it tt idx vars \<noteq> Inl RuntimeError"
proof (induction idx arbitrary: vars)
  case Nil
  then show ?case by simp
next
  case (Cons i rest)
  obtain ou h loss g where v: "vars = (ou, h, loss, g)" by (cases vars)
  show ?case
    using forward_no_RuntimeError [of r g c "it ! i" h] criterion_no_RuntimeError Cons.IH
    unfolding v by (auto split: sum.splits)
qed

lemma update_linear_no_RuntimeError: "update_linear l gr \<noteq> Inl RuntimeError"
  by (auto simp: update_linear_def add_1_def add_2_def split: sum.splits if_splits)

lemma update_parameters_no_RuntimeError: "update_parameters r gr \<noteq> Inl RuntimeError"
  using update_linear_no_RuntimeError
  by (auto simp: update_parameters_def split: sum.splits)

lemma train_no_RuntimeError: "train backward r g c it tt \<noteq> Inl RuntimeError"
  using train_loop_no_RuntimeError update_parameters_no_RuntimeError
  by (auto simp: train_def Let_def split: sum.splits loss_value.splits option.splits)

lemma training_loop_no_RuntimeError: "training_loop backward d iters st \<noteq> Inl RuntimeError"
proof (induction iters arbitrary: st)
  case Nil
  then show ?case by simp
next
  case (Cons iter rest)
  show ?case
    using randomTrainingExample_no_RuntimeError [of d "py_random st"] train_no_RuntimeError Cons.IH
    by (auto simp: Let_def split: sum.splits)
qed

lemma topk1_no_RuntimeError: "topk1 ties t \<noteq> Inl RuntimeError"
  by (simp add: topk1_def)

lemma sample_loop_no_RuntimeError: "sample_loop ties r c n vars \<noteq> Inl RuntimeError"
proof (induction n arbitrary: vars)
  case 0
  obtain i h nm g where v: "vars = (i, h, nm, g)" by (cases vars)
  then show ?case by simp
next
  case (Suc n)
  obtain i h nm g where v: "vars = (i, h, nm, g)" by (cases vars)
  show ?case
    using forward_no_RuntimeError [of r g c "i ! 0" h] topk1_no_RuntimeError
      inputTensor_no_RuntimeError Suc.IH
    unfolding v by (auto simp: Let_def split: sum.splits)
qed

lemma sample_no_RuntimeError: "sample ties d r g c s \<noteq> Inl RuntimeError"
  using categoryTensor_no_RuntimeError sample_loop_no_RuntimeError inputTensor_no_RuntimeError
  by (auto simp: sample_def split: sum.splits)

lemma prepare_sequence_no_RuntimeError: "prepare_sequence seq to_ix \<noteq> Inl RuntimeError"
  by (induction seq) (auto simp: dict_getitem_def split: sum.splits option.splits)

text \<open>
  Claim C1. Loading the data raises \<open>RuntimeError\<close> exactly when the loop over the files
  found ends with no category, which is exactly when no file was found; any other failure
  of the loop is an exception of the interpreter, and a successful load has as many
  categories as files, at least one. No other operation of the programs raises
  \<open>RuntimeError\<close>: not the encodings, the random choice of an example, a training step,
  the training loop, sampling, nor the preparation of a sentence of the tagger.
\<close>

theorem data_not_found_iff:
  "((load_names ud fs = Inl RuntimeError) =
      (\<exists>cl ac. load_loop ud fs (findFiles fs data_path) (Map.empty, []) = Inr (cl, ac) \<and> length ac = 0)) \<and>
   ((load_names ud fs = Inl RuntimeError) = (findFiles fs data_path = [])) \<and>
   (\<forall>d. load_names ud fs = Inr d \<longrightarrow>
        n_categories d = length (findFiles fs data_path) \<and> n_categories d \<noteq> 0) \<and>
   categoryTensor dat c \<noteq> Inl RuntimeError \<and>
   inputTensor l \<noteq> Inl RuntimeError \<and>
   randomTrainingExample dat g \<noteq> Inl RuntimeError \<and>
   train backward r tg ct it tt \<noteq> Inl RuntimeError \<and>
   training_loop backward dat iters st \<noteq> Inl RuntimeError \<and>
   sample ties dat r tg c s \<noteq> Inl RuntimeError \<and>
   prepare_sequence seq to_ix \<noteq> Inl RuntimeError"
proof (intro conjI)
  let ?files = "findFiles fs data_path"
  let ?loop = "load_loop ud fs ?files (Map.empty, [])"
  show "(load_names ud fs = Inl RuntimeError) = (\<exists>cl ac. ?loop = Inr (cl, ac) \<and> length ac = 0)"
  proof (cases ?loop)
    case (Inl e)
    then have "e \<noteq> RuntimeError" using load_loop_errors by fastforce
    with Inl show ?thesis by (simp add: load_names_def)
  next
    case (Inr r)
    then show ?thesis by (cases r) (simp add: load_names_def Let_def)
  qed
  show "(load_names ud fs = Inl RuntimeError) = (?files = [])"
  proof (cases ?loop)
    case (Inl e)
    then have "e \<noteq> RuntimeError" using load_loop_errors by fastforce
    moreover from Inl have "?files \<noteq> []" by (cases ?files) auto
    ultimately show ?thesis using Inl by (simp add: load_names_def)
  next
    case (Inr r)
    obtain cl ac where r: "r = (cl, ac)" by (cases r)
    with Inr have "ac = map file_category ?files"
      using load_loop_categories by fastforce
    with Inr r show ?thesis by (simp add: load_names_def Let_def)
  qed
  show "\<forall>d. load_names ud fs = Inr d \<longrightarrow>
          n_categories d = length (findFiles fs data_path) \<and> n_categories d \<noteq> 0"
  proof (intro allI impI)
    fix d assume "load_names ud fs = Inr d"
    from load_names_Inr [OF this]
    show "n_categories d = length (findFiles fs data_path) \<and> n_categories d \<noteq> 0"
      by auto
  qed
  show "categoryTensor dat c \<noteq> Inl RuntimeError"
    by (rule categoryTensor_no_RuntimeError)
  show "inputTensor l \<noteq> Inl RuntimeError"
    by (rule inputTensor_no_RuntimeError)
  show "randomTrainingExample dat g \<noteq> Inl RuntimeError"
    by (rule randomTrainingExample_no_RuntimeError)
  show "train backward r tg ct it tt \<noteq> Inl RuntimeError"
    by (rule train_no_RuntimeError)
  show "training_loop backward dat iters st \<noteq> Inl RuntimeError"
    by (rule training_loop_no_RuntimeError)
  show "sample ties dat r tg c s \<noteq> Inl RuntimeError"
    by (rule sample_no_RuntimeError)
  show "prepare_sequence seq to_ix \<noteq> Inl RuntimeError"
    by (rule prepare_sequence_no_RuntimeError)
qed


subsection \<open>The sample file system\<close>

lemma sample_files:
  "findFiles fs_sample data_path = [ustr ''data/names/Irish.txt'', ustr ''data/names/French.txt'']"
  by (simp add: findFiles_def fs_sample_def)

lemma sample_category_Irish: "fst (splitext (basename (ustr ''data/names/Irish.txt''))) = ustr ''Irish''"
  by (simp add: splitext_def basename_def rfind_def ustr_def Let_def)

lemma sample_category_French: "fst (splitext (basename (ustr ''data/names/French.txt''))) = ustr ''French''"
  by (simp add: splitext_def basename_def rfind_def ustr_def Let_def)

lemma sample_lines_Irish:
  "readLines unicodedata_sample fs_sample (ustr ''data/names/Irish.txt'')
   = Inr [[79, 39, 78, 101, 97, 108], ustr ''Adam'']"
  by (simp add: readLines_def fs_sample_def ustr_def strip_def isspace_def split_def newline_def
      unicodeToAscii_def unicodedata_sample_def all_letters_codes)

lemma sample_lines_French:
  "readLines unicodedata_sample fs_sample (ustr ''data/names/French.txt'')
   = Inr [ustr ''Andre'', ustr ''Roux'']"
  by (simp add: readLines_def fs_sample_def ustr_def strip_def isspace_def split_def newline_def
      unicodeToAscii_def unicodedata_sample_def all_letters_codes)

lemma load_names_sample: "load_names unicodedata_sample fs_sample = Inr data_sample"
  by (simp add: load_names_def sample_files sample_category_Irish sample_category_French
      sample_lines_Irish sample_lines_French data_sample_def Let_def)

lemma load_names_empty: "load_names ud fs_empty = Inl RuntimeError"
  by (simp add: load_names_def findFiles_def fs_empty_def)

text \<open>
  Both cases: the directory without files, and the sample directory.
\<close>

theorem data_not_found_iff_witness:
  "load_names unicodedata_sample fs_empty = Inl RuntimeError \<and>
   findFiles fs_empty data_path = [] \<and>
   load_names unicodedata_sample fs_sample = Inr data_sample \<and>
   findFiles fs_sample data_path \<noteq> [] \<and>
   n_categories data_sample = length (findFiles fs_sample data_path) \<and>
   n_categories data_sample \<noteq> 0"
  using data_not_found_iff [of unicodedata_sample fs_empty, THEN conjunct2, THEN conjunct1]
    data_not_found_iff [of unicodedata_sample fs_sample, THEN conjunct2, THEN conjunct1]
    data_not_found_iff [of unicodedata_sample fs_sample, THEN conjunct2, THEN conjunct2, THEN conjunct1]
    load_names_sample
  by (simp add: findFiles_def fs_empty_def)


text \<open>
  Claim C6. For a readable file, \<open>readLines\<close> returns the text without its surrounding
  white space, split at the newlines, each piece converted by \<open>unicodeToAscii\<close>: the
  pieces joined by newlines are the stripped text, no piece contains a newline, and the
  stripped text is the text without a prefix and a suffix of white space. The lines are stored
  in \<open>category_lines\<close> under the base name of the file without its extension (when no
  later file has the same base name, which would replace them): for a path
  \<open>dir/name.ext\<close> the key is \<open>name\<close>.
\<close>

theorem readLines_and_category_key:
  "(\<forall>body. read_text fs f = Content body \<longrightarrow>
      (\<exists>ls. readLines ud fs f = Inr (map (unicodeToAscii ud) ls) \<and>
            ls = split (strip body) newline \<and>
            join newline ls = strip body \<and> ls \<noteq> [] \<and> (\<forall>l\<in>set ls. newline \<notin> set l) \<and>
            (\<exists>pre suf. body = pre @ strip body @ suf \<and>
               (\<forall>c\<in>set pre. isspace c) \<and> (\<forall>c\<in>set suf. isspace c)) \<and>
            (strip body \<noteq> [] \<longrightarrow> \<not> isspace (hd (strip body)) \<and> \<not> isspace (last (strip body))))) \<and>
   (\<forall>d pre post.
      load_names ud fs = Inr d \<and> findFiles fs data_path = pre @ f # post \<and>
      file_category f \<notin> file_category ` set post \<longrightarrow>
      (\<exists>ls. readLines ud fs f = Inr ls \<and>
            category_lines d (fst (splitext (basename f))) = Some ls)) \<and>
   (\<forall>dir name ext.
      47 \<notin> set name \<and> (\<exists>c\<in>set name. c \<noteq> 46) \<and> 46 \<notin> set ext \<and> 47 \<notin> set ext \<longrightarrow>
      fst (splitext (basename (dir @ 47 # name @ 46 # ext))) = name)"
proof (intro conjI)
  show "\<forall>body. read_text fs f = Content body \<longrightarrow>
      (\<exists>ls. readLines ud fs f = Inr (map (unicodeToAscii ud) ls) \<and>
            ls = split (strip body) newline \<and>
            join newline ls = strip body \<and> ls \<noteq> [] \<and> (\<forall>l\<in>set ls. newline \<notin> set l) \<and>
            (\<exists>pre suf. body = pre @ strip body @ suf \<and>
               (\<forall>c\<in>set pre. isspace c) \<and> (\<forall>c\<in>set suf. isspace c)) \<and>
            (strip body \<noteq> [] \<longrightarrow> \<not> isspace (hd (strip body)) \<and> \<not> isspace (last (strip body))))"
  proof (intro allI impI)
    fix body assume t: "read_text fs f = Content body"
    let ?ls = "split (strip body) newline"
    from t have "readLines ud fs f = Inr (map (unicodeToAscii ud) ?ls)"
      by (simp add: readLines_def Let_def)
    moreover have "join newline ?ls = strip body \<and> ?ls \<noteq> [] \<and> (\<forall>l\<in>set ?ls. newline \<notin> set l)"
      by (rule split_spec)
    moreover note strip_decomp [of body] strip_ends [of body]
    ultimately show "\<exists>ls. readLines ud fs f = Inr (map (unicodeToAscii ud) ls) \<and>
            ls = split (strip body) newline \<and>
            join newline ls = strip body \<and> ls \<noteq> [] \<and> (\<forall>l\<in>set ls. newline \<notin> set l) \<and>
            (\<exists>pre suf. body = pre @ strip body @ suf \<and>
               (\<forall>c\<in>set pre. isspace c) \<and> (\<forall>c\<in>set suf. isspace c)) \<and>
            (strip body \<noteq> [] \<longrightarrow> \<not> isspace (hd (strip body)) \<and> \<not> isspace (last (strip body)))"
      by blast
  qed
  show "\<forall>d pre post.
      load_names ud fs = Inr d \<and> findFiles fs data_path = pre @ f # post \<and>
      file_category f \<notin> file_category ` set post \<longrightarrow>
      (\<exists>ls. readLines ud fs f = Inr ls \<and>
            category_lines d (fst (splitext (basename f))) = Some ls)"
  proof (intro allI impI)
    fix d pre post
    assume a: "load_names ud fs = Inr d \<and> findFiles fs data_path = pre @ f # post \<and>
      file_category f \<notin> file_category ` set post"
    from a load_names_Inr [of ud fs d]
    have "load_loop ud fs (pre @ f # post) (Map.empty, []) = Inr (category_lines d, all_categories d)"
      by auto
    from load_loop_stores [OF this] a
    show "\<exists>ls. readLines ud fs f = Inr ls \<and>
            category_lines d (fst (splitext (basename f))) = Some ls"
      by (simp add: file_category_def)
  qed
  show "\<forall>dir name ext.
      47 \<notin> set name \<and> (\<exists>c\<in>set name. c \<noteq> 46) \<and> 46 \<notin> set ext \<and> 47 \<notin> set ext \<longrightarrow>
      fst (splitext (basename (dir @ 47 # name @ 46 # ext))) = name"
    using file_category_txt by (simp add: file_category_def)
qed

text \<open>
  The first file of the sample directory.
\<close>

theorem readLines_and_category_key_witness:
  "read_text fs_sample (ustr ''data/names/Irish.txt'')
     = Content (ustr ''O'' @ [39, 78, 233, 224] @ ustr ''l'' @ [10] @ ustr ''Adam'' @ [10]) \<and>
   strip (ustr ''O'' @ [39, 78, 233, 224] @ ustr ''l'' @ [10] @ ustr ''Adam'' @ [10])
     = ustr ''O'' @ [39, 78, 233, 224] @ ustr ''l'' @ [10] @ ustr ''Adam'' \<and>
   readLines unicodedata_sample fs_sample (ustr ''data/names/Irish.txt'')
     = Inr [[79, 39, 78, 101, 97, 108], ustr ''Adam''] \<and>
   load_names unicodedata_sample fs_sample = Inr data_sample \<and>
   findFiles fs_sample data_path = [] @ ustr ''data/names/Irish.txt'' # [ustr ''data/names/French.txt''] \<and>
   file_category (ustr ''data/names/Irish.txt'') \<notin> file_category ` set [ustr ''data/names/French.txt''] \<and>
   category_lines data_sample (ustr ''Irish'') = Some [[79, 39, 78, 101, 97, 108], ustr ''Adam''] \<and>
   47 \<notin> set (ustr ''Irish'') \<and> (\<exists>c\<in>set (ustr ''Irish''). c \<noteq> 46) \<and>
   46 \<notin> set (ustr ''txt'') \<and> 47 \<notin> set (ustr ''txt'') \<and>
   fst (splitext (basename (ustr ''data/names'' @ 47 # ustr ''Irish'' @ 46 # ustr ''txt''))) = ustr ''Irish''"
proof -
  have rt: "read_text fs_sample (ustr ''data/names/Irish.txt'')
     = Content (ustr ''O'' @ [39, 78, 233, 224] @ ustr ''l'' @ [10] @ ustr ''Adam'' @ [10])"
    by (simp add: fs_sample_def)
  have st: "strip (ustr ''O'' @ [39, 78, 233, 224] @ ustr ''l'' @ [10] @ ustr ''Adam'' @ [10])
     = ustr ''O'' @ [39, 78, 233, 224] @ ustr ''l'' @ [10] @ ustr ''Adam''"
    by (simp add: strip_def isspace_def ustr_def)
  have cat: "file_category (ustr ''data/names/Irish.txt'') \<notin> file_category ` set [ustr ''data/names/French.txt'']"
    by (simp add: file_category_def sample_category_Irish sample_category_French) (simp add: ustr_def)
  have files: "findFiles fs_sample data_path = [] @ ustr ''data/names/Irish.txt'' # [ustr ''data/names/French.txt'']"
    by (simp add: sample_files)
  have nm: "47 \<notin> set (ustr ''Irish'') \<and> (\<exists>c\<in>set (ustr ''Irish''). c \<noteq> 46) \<and>
            46 \<notin> set (ustr ''txt'') \<and> 47 \<notin> set (ustr ''txt'')"
    by (simp add: ustr_def)
  from readLines_and_category_key [of fs_sample "ustr ''data/names/Irish.txt''" unicodedata_sample]
  have k: "(\<forall>d pre post.
      load_names unicodedata_sample fs_sample = Inr d \<and>
      findFiles fs_sample data_path = pre @ ustr ''data/names/Irish.txt'' # post \<and>
      file_category (ustr ''data/names/Irish.txt'') \<notin> file_category ` set post \<longrightarrow>
      (\<exists>ls. readLines unicodedata_sample fs_sample (ustr ''data/names/Irish.txt'') = Inr ls \<and>
            category_lines d (fst (splitext (basename (ustr ''data/names/Irish.txt'')))) = Some ls))"
    and n: "(\<forall>dir name ext.
      47 \<notin> set name \<and> (\<exists>c\<in>set name. c \<noteq> 46) \<and> 46 \<notin> set ext \<and> 47 \<notin> set ext \<longrightarrow>
      fst (splitext (basename (dir @ 47 # name @ 46 # ext))) = name)"
    by blast+
  from k load_names_sample files cat
  have "\<exists>ls. readLines unicodedata_sample fs_sample (ustr ''data/names/Irish.txt'') = Inr ls \<and>
            category_lines data_sample (fst (splitext (basename (ustr ''data/names/Irish.txt'')))) = Some ls"
    by blast
  then have stored: "category_lines data_sample (ustr ''Irish'') = Some [[79, 39, 78, 101, 97, 108], ustr ''Adam'']"
    by (simp add: sample_lines_Irish sample_category_Irish)
  from n nm have "fst (splitext (basename (ustr ''data/names'' @ 47 # ustr ''Irish'' @ 46 # ustr ''txt''))) = ustr ''Irish''"
    by blast
  with rt st sample_lines_Irish load_names_sample files cat stored nm show ?thesis
    by blast
qed

text \<open>
  Claim C4. For a category of the loaded data, \<open>categoryTensor\<close> returns a tensor of shape
  \<open>1 \<times> n_categories\<close> that is 1 at the position of the category in \<open>all_categories\<close> and 0
  elsewhere. For a line of alphabet characters, \<open>inputTensor\<close> returns a tensor of shape
  \<open>len(line) \<times> 1 \<times> n_letters\<close> whose slice for each character is 1 at the position of
  the character in the alphabet and 0 elsewhere.
\<close>

theorem one_hot_encodings:
  "(load_names ud fs = Inr d \<and> cat \<in> set (all_categories d) \<longrightarrow>
      (\<exists>li t. li < n_categories d \<and> all_categories d ! li = cat \<and>
         categoryTensor d cat = Inr t \<and> length t = 1 \<and> length (t ! 0) = n_categories d \<and>
         (\<forall>k<n_categories d. t ! 0 ! k = (if k = li then 1 else 0)))) \<and>
   (set line \<subseteq> set all_letters \<longrightarrow>
      (\<exists>t. inputTensor line = Inr t \<and> length t = length line \<and>
         (\<forall>i<length line. length (t ! i) = 1 \<and> length (t ! i ! 0) = n_letters \<and>
            (\<exists>p<length all_letters. all_letters ! p = line ! i \<and>
               (\<forall>k<n_letters. t ! i ! 0 ! k = (if k = p then 1 else 0))))))"
proof (intro conjI impI)
  assume a: "load_names ud fs = Inr d \<and> cat \<in> set (all_categories d)"
  with load_names_Inr [of ud fs d] have n: "n_categories d = length (all_categories d)" by blast
  from a index_in [of cat "all_categories d"] obtain li where
    li: "index (all_categories d) cat = Inr li" "li < length (all_categories d)"
        "all_categories d ! li = cat"
    by blast
  let ?t = "[one_hot (n_categories d) li]"
  have "categoryTensor d cat = Inr ?t"
    using li n by (simp add: categoryTensor_def setitem2_def zeros2_one py_index_0 py_index_nat
        length_zeros1 one_hot_def)
  moreover have "\<forall>k<n_categories d. ?t ! 0 ! k = (if k = li then 1 else 0)"
    using li n by (simp add: one_hot_nth)
  ultimately show "\<exists>li t. li < n_categories d \<and> all_categories d ! li = cat \<and>
         categoryTensor d cat = Inr t \<and> length t = 1 \<and> length (t ! 0) = n_categories d \<and>
         (\<forall>k<n_categories d. t ! 0 ! k = (if k = li then 1 else 0))"
    using li n by (auto simp: length_one_hot)
next
  assume a: "set line \<subseteq> set all_letters"
  let ?t = "map (\<lambda>c. [one_hot n_letters (letter_slot c)]) line"
  have "\<forall>i<length line. length (?t ! i) = 1 \<and> length (?t ! i ! 0) = n_letters \<and>
            (\<exists>p<length all_letters. all_letters ! p = line ! i \<and>
               (\<forall>k<n_letters. ?t ! i ! 0 ! k = (if k = p then 1 else 0)))"
  proof (intro allI impI)
    fix i assume i: "i < length line"
    with a have m: "line ! i \<in> set all_letters" by auto
    let ?p = "letter_slot (line ! i)"
    from m find_py_in [of "line ! i" all_letters] find_py_bounds [of all_letters "line ! i"]
    have "nat (find_py all_letters (line ! i)) < length all_letters"
      and "all_letters ! nat (find_py all_letters (line ! i)) = line ! i"
      by linarith+
    with m have p: "?p < length all_letters" "all_letters ! ?p = line ! i"
      by (simp_all add: letter_slot_def)
    then have pn: "?p < n_letters" by (simp add: n_letters_def)
    have "\<forall>k<n_letters. one_hot n_letters ?p ! k = (if k = ?p then 1 else 0)"
      using pn by (simp add: one_hot_nth)
    with p i show "length (?t ! i) = 1 \<and> length (?t ! i ! 0) = n_letters \<and>
            (\<exists>p<length all_letters. all_letters ! p = line ! i \<and>
               (\<forall>k<n_letters. ?t ! i ! 0 ! k = (if k = p then 1 else 0)))"
      by (auto simp: length_one_hot)
  qed
  then show "\<exists>t. inputTensor line = Inr t \<and> length t = length line \<and>
         (\<forall>i<length line. length (t ! i) = 1 \<and> length (t ! i ! 0) = n_letters \<and>
            (\<exists>p<length all_letters. all_letters ! p = line ! i \<and>
               (\<forall>k<n_letters. t ! i ! 0 ! k = (if k = p then 1 else 0))))"
    by (simp add: inputTensor_eq)
qed

text \<open>
  The category \<open>French\<close> of the sample data and the line \<open>ab\<close>.
\<close>

theorem one_hot_encodings_witness:
  "load_names unicodedata_sample fs_sample = Inr data_sample \<and>
   ustr ''French'' \<in> set (all_categories data_sample) \<and>
   categoryTensor data_sample (ustr ''French'') = Inr [[0, 1]] \<and>
   set (ustr ''ab'') \<subseteq> set all_letters \<and>
   (\<exists>t. inputTensor (ustr ''ab'') = Inr t \<and> length t = 2 \<and>
      (\<forall>i<2. length (t ! i) = 1 \<and> length (t ! i ! 0) = n_letters \<and>
         (\<exists>p<length all_letters. all_letters ! p = ustr ''ab'' ! i \<and>
            (\<forall>k<n_letters. t ! i ! 0 ! k = (if k = p then 1 else 0)))))"
proof -
  have mem: "ustr ''French'' \<in> set (all_categories data_sample)"
    by (simp add: data_sample_def)
  have sub: "set (ustr ''ab'') \<subseteq> set all_letters"
    by (simp add: ustr_def all_letters_codes)
  have len: "length (ustr ''ab'') = 2"
    by (simp add: ustr_def)
  have ct: "categoryTensor data_sample (ustr ''French'') = Inr [[0, 1]]"
    by (simp add: categoryTensor_def data_sample_def ustr_def setitem2_def py_index_def
        zeros2_def zeros1_def numeral_2_eq_2)
  from one_hot_encodings [of unicodedata_sample fs_sample data_sample "ustr ''French''" "ustr ''ab''"]
    load_names_sample mem sub
  have "\<exists>t. inputTensor (ustr ''ab'') = Inr t \<and> length t = length (ustr ''ab'') \<and>
      (\<forall>i<length (ustr ''ab''). length (t ! i) = 1 \<and> length (t ! i ! 0) = n_letters \<and>
         (\<exists>p<length all_letters. all_letters ! p = ustr ''ab'' ! i \<and>
            (\<forall>k<n_letters. t ! i ! 0 ! k = (if k = p then 1 else 0))))"
    by blast
  with load_names_sample mem ct sub show ?thesis
    by (simp only: len)
qed

section \<open>The vocabulary of the tagger\<close>

lemma training_data_words:
  "training_data =
     [(map ustr [''The'', ''dog'', ''ate'', ''the'', ''apple''], map ustr [''DET'', ''NN'', ''V'', ''DET'', ''NN'']),
      (map ustr [''Everybody'', ''read'', ''that'', ''book''], map ustr [''NN'', ''V'', ''DET'', ''NN''])]"
  by (simp add: training_data_def split_ws_def ustr_def isspace_def)

lemma word_to_ix_value:
  "word_to_ix =
     [(ustr ''The'', 0), (ustr ''dog'', 1), (ustr ''ate'', 2), (ustr ''the'', 3), (ustr ''apple'', 4),
      (ustr ''Everybody'', 5), (ustr ''read'', 6), (ustr ''that'', 7), (ustr ''book'', 8)]"
  by (simp add: word_to_ix_def training_data_words dict_setitem_def ustr_def)

lemma word_to_ix_sent_append:
  "word_to_ix_sent (ws @ ws') d = word_to_ix_sent ws' (word_to_ix_sent ws d)"
  by (induction ws arbitrary: d) auto

lemma word_to_ix_loop_concat:
  "word_to_ix_loop td d = word_to_ix_sent (concat (map fst td)) d"
  by (induction td arbitrary: d) (auto simp: word_to_ix_sent_append)

lemma map_of_None_iff: "map_of d k = None \<longleftrightarrow> k \<notin> set (map fst d)"
  by (simp add: map_of_eq_None_iff)

lemma dict_ok_step:
  "dict_ok d \<Longrightarrow> map_of d w = None \<Longrightarrow> dict_ok (dict_setitem d w (int (length d)))"
  by (simp add: dict_ok_def dict_setitem_def map_of_None_iff)

lemma word_to_ix_sent_ok: "dict_ok d \<Longrightarrow> dict_ok (word_to_ix_sent ws d)"
  by (induction ws arbitrary: d) (auto simp: dict_ok_step)

lemma word_to_ix_sent_keys:
  "set (map fst (word_to_ix_sent ws d)) = set (map fst d) \<union> set ws"
proof (induction ws arbitrary: d)
  case Nil
  then show ?case by simp
next
  case (Cons w ws)
  show ?case
  proof (cases "map_of d w = None")
    case True
    with Cons.IH [of "dict_setitem d w (int (length d))"] show ?thesis
      by (simp add: dict_setitem_def)
  next
    case False
    then have "w \<in> set (map fst d)" by (simp add: map_of_None_iff)
    with False Cons.IH [of d] show ?thesis by auto
  qed
qed

lemma word_to_ix_sent_extends: "\<exists>ext. word_to_ix_sent ws d = d @ ext"
proof (induction ws arbitrary: d)
  case Nil
  then show ?case by simp
next
  case (Cons w ws)
  show ?case
  proof (cases "map_of d w = None")
    case True
    from Cons.IH [of "d @ [(w, int (length d))]"] obtain ext where
      "word_to_ix_sent ws (d @ [(w, int (length d))]) = (d @ [(w, int (length d))]) @ ext"
      by blast
    with True show ?thesis by (simp add: dict_setitem_def)
  next
    case False
    with Cons.IH [of d] show ?thesis by auto
  qed
qed

lemma word_to_ix_sent_stable:
  "map_of (word_to_ix_sent ws d) w = Some i \<Longrightarrow>
   map_of (word_to_ix_sent (ws @ ws') d) w = Some i"
proof -
  assume a: "map_of (word_to_ix_sent ws d) w = Some i"
  from word_to_ix_sent_extends [of ws' "word_to_ix_sent ws d"] obtain ext where
    "word_to_ix_sent ws' (word_to_ix_sent ws d) = word_to_ix_sent ws d @ ext"
    by blast
  with a show ?thesis by (simp add: word_to_ix_sent_append)
qed

lemma word_to_ix_sent_first:
  assumes "w \<notin> set ws"
  shows "map_of (word_to_ix_sent (ws @ [w]) []) w = Some (int (length (word_to_ix_sent ws [])))"
proof -
  let ?d = "word_to_ix_sent ws []"
  from assms word_to_ix_sent_keys [of ws "[]"] have "map_of ?d w = None"
    by (simp add: map_of_None_iff)
  then show ?thesis
    by (simp add: word_to_ix_sent_append dict_setitem_def map_add_def)
qed

lemma dict_ok_inj:
  assumes "dict_ok d" and "map_of d w = Some i" and "map_of d w' = Some i"
  shows "w = w'"
proof -
  from assms(1) have dk: "distinct (map fst d)" and sn: "map snd d = map int [0..<length d]"
    by (simp_all add: dict_ok_def)
  from sn have "distinct (map snd d)" by (simp add: distinct_map)
  from assms(2,3) have "(w, i) \<in> set d" "(w', i) \<in> set d"
    by (auto dest: map_of_SomeD)
  moreover from \<open>distinct (map snd d)\<close> have "inj_on snd (set d)"
    by (simp add: distinct_map)
  ultimately have "(w, i) = (w', i)"
    using inj_onD [of snd "set d" "(w, i)" "(w', i)"] by simp
  then show ?thesis by simp
qed


text \<open>
  Claim C5. The state of \<open>word_to_ix\<close> after the words \<open>ws\<close> have been processed is
  \<open>word_to_ix_sent ws []\<close>; the nested loops process the words of all sentences in order.
  At every such point the keys are distinct and are the words seen, the indices are
  \<open>0 .. size - 1\<close>, and the mapping is injective. A word not seen so far has no index and
  gets the current size as its index when it occurs, and an index once assigned is the same
  at every later point.
\<close>

theorem word_to_ix_stable_injective:
  "word_to_ix_loop td [] = word_to_ix_sent (concat (map fst td)) [] \<and>
   distinct (map fst (word_to_ix_sent ws [])) \<and>
   set (map fst (word_to_ix_sent ws [])) = set ws \<and>
   map snd (word_to_ix_sent ws []) = map int [0..<length (word_to_ix_sent ws [])] \<and>
   (\<forall>w w' i. map_of (word_to_ix_sent ws []) w = Some i \<and>
              map_of (word_to_ix_sent ws []) w' = Some i \<longrightarrow> w = w') \<and>
   (\<forall>w. w \<notin> set ws \<longrightarrow>
        map_of (word_to_ix_sent ws []) w = None \<and>
        map_of (word_to_ix_sent (ws @ [w]) []) w = Some (int (length (word_to_ix_sent ws [])))) \<and>
   (\<forall>w i ws'. map_of (word_to_ix_sent ws []) w = Some i \<longrightarrow>
        map_of (word_to_ix_sent (ws @ ws') []) w = Some i)"
proof (intro conjI)
  let ?d = "word_to_ix_sent ws []"
  have ok: "dict_ok ?d"
    by (rule word_to_ix_sent_ok) (simp add: dict_ok_def)
  show "word_to_ix_loop td [] = word_to_ix_sent (concat (map fst td)) []"
    by (rule word_to_ix_loop_concat)
  from ok show "distinct (map fst ?d)"
    by (simp add: dict_ok_def)
  show keys: "set (map fst ?d) = set ws"
    using word_to_ix_sent_keys [of ws "[]"] by simp
  from ok show "map snd ?d = map int [0..<length ?d]"
    by (simp add: dict_ok_def)
  show "\<forall>w w' i. map_of ?d w = Some i \<and> map_of ?d w' = Some i \<longrightarrow> w = w'"
  proof (intro allI impI)
    fix w w' i assume "map_of ?d w = Some i \<and> map_of ?d w' = Some i"
    with ok show "w = w'" using dict_ok_inj [of ?d w i w'] by simp
  qed
  show "\<forall>w. w \<notin> set ws \<longrightarrow>
        map_of ?d w = None \<and> map_of (word_to_ix_sent (ws @ [w]) []) w = Some (int (length ?d))"
  proof (intro allI impI)
    fix w assume w: "w \<notin> set ws"
    with keys have "map_of ?d w = None" by (simp add: map_of_None_iff)
    with w word_to_ix_sent_first [of w ws]
    show "map_of ?d w = None \<and> map_of (word_to_ix_sent (ws @ [w]) []) w = Some (int (length ?d))"
      by simp
  qed
  show "\<forall>w i ws'. map_of ?d w = Some i \<longrightarrow>
        map_of (word_to_ix_sent (ws @ ws') []) w = Some i"
  proof (intro allI impI)
    fix w i ws' assume "map_of ?d w = Some i"
    then show "map_of (word_to_ix_sent (ws @ ws') []) w = Some i"
      by (rule word_to_ix_sent_stable)
  qed
qed

text \<open>
  The notebook's data: the vocabulary it prints, and the points after three and after six
  words.
\<close>

theorem word_to_ix_stable_injective_witness:
  "word_to_ix =
     [(ustr ''The'', 0), (ustr ''dog'', 1), (ustr ''ate'', 2), (ustr ''the'', 3), (ustr ''apple'', 4),
      (ustr ''Everybody'', 5), (ustr ''read'', 6), (ustr ''that'', 7), (ustr ''book'', 8)] \<and>
   word_to_ix_sent (map ustr [''The'', ''dog'', ''ate'']) []
     = [(ustr ''The'', 0), (ustr ''dog'', 1), (ustr ''ate'', 2)] \<and>
   ustr ''the'' \<notin> set (map ustr [''The'', ''dog'', ''ate'']) \<and>
   map_of (word_to_ix_sent (map ustr [''The'', ''dog'', ''ate'']) []) (ustr ''the'') = None \<and>
   map_of (word_to_ix_sent (map ustr [''The'', ''dog'', ''ate''] @ [ustr ''the'']) []) (ustr ''the'')
     = Some 3 \<and>
   map_of (word_to_ix_sent (map ustr [''The'', ''dog'', ''ate'']) []) (ustr ''dog'') = Some 1 \<and>
   map_of (word_to_ix_sent
             (map ustr [''The'', ''dog'', ''ate''] @ map ustr [''the'', ''apple'', ''Everybody'']) [])
          (ustr ''dog'') = Some 1"
proof -
  define ws where "ws = map ustr [''The'', ''dog'', ''ate'']"
  define S where "S = word_to_ix_sent ws []"
  have s: "S = [(ustr ''The'', 0), (ustr ''dog'', 1), (ustr ''ate'', 2)]"
    by (simp add: S_def ws_def dict_setitem_def ustr_def)
  have n: "ustr ''the'' \<notin> set ws"
    by (simp add: ws_def ustr_def)
  have d: "map_of S (ustr ''dog'') = Some 1"
    by (simp only: s) (simp add: ustr_def)
  have l: "int (length S) = 3"
    by (simp only: s) simp
  from word_to_ix_stable_injective [of training_data ws]
  have first: "\<forall>w. w \<notin> set ws \<longrightarrow>
        map_of S w = None \<and> map_of (word_to_ix_sent (ws @ [w]) []) w = Some (int (length S))"
    and stable: "\<forall>w i ws'. map_of S w = Some i \<longrightarrow>
        map_of (word_to_ix_sent (ws @ ws') []) w = Some i"
    unfolding S_def by blast+
  from first n l have f: "map_of S (ustr ''the'') = None"
    "map_of (word_to_ix_sent (ws @ [ustr ''the'']) []) (ustr ''the'') = Some 3"
    by simp_all
  from stable d have
    "map_of (word_to_ix_sent (ws @ map ustr [''the'', ''apple'', ''Everybody'']) []) (ustr ''dog'') = Some 1"
    by blast
  with s n d f word_to_ix_value show ?thesis
    unfolding S_def ws_def by (simp only: simp_thms)
qed

section \<open>The network\<close>

lemma shape2_one: "shape2 1 n t \<longleftrightarrow> (\<exists>r. t = [r] \<and> length r = n)"
  by (cases t) (auto simp: shape2_def)

lemma shape2_zeros2: "shape2 m n (zeros2 m n)"
  by (simp add: shape2_def zeros2_def zeros1_def list_all_iff)

lemma cat1_three_rows: "cat1 [[a], [b], [c]] = Inr [a @ b @ c]"
  by simp

lemma cat1_two_rows: "cat1 [[a], [b]] = Inr [a @ b]"
  by simp

lemma linear_apply_row:
  assumes "linear_shape n_in n_out l" and "length x = n_in"
  shows "\<exists>y. linear_apply l [x] = Inr [y] \<and> length y = n_out"
proof -
  from assms have ok: "list_all (\<lambda>w. length w = length x) (weight l)"
    and b: "length (bias l) = length (weight l)" and o: "length (weight l) = n_out"
    by (simp_all add: linear_shape_def)
  let ?y = "map2 (\<lambda>w b. dot w x + b) (weight l) (bias l)"
  from ok b have "linear_apply l [x] = Inr [?y]" by (simp add: linear_apply_def)
  moreover from b o have "length ?y = n_out" by simp
  ultimately show ?thesis by blast
qed

lemma length_apply_mask_row: "\<exists>y. apply_mask m [x] = [y] \<and> length y = length x"
  by (simp add: apply_mask_def)

lemma log_softmax_row: "\<exists>y. log_softmax [x] = [y] \<and> length y = length x"
  by (simp add: log_softmax_def)

lemma forward_shape:
  assumes r: "RNN d input_size hs output_size r"
    and c: "shape2 1 (n_categories d) category"
    and i: "shape2 1 input_size input"
    and h: "shape2 1 hs hidden"
  shows "\<exists>output hidden'. forward r g category input hidden = Inr (output, hidden', (\<lambda>k. g (Suc k))) \<and>
           shape2 1 output_size output \<and> shape2 1 hs hidden'"
proof -
  from c obtain cr where cr: "category = [cr]" "length cr = n_categories d"
    unfolding shape2_one by blast
  from i obtain ir where ir: "input = [ir]" "length ir = input_size"
    unfolding shape2_one by blast
  from h obtain hr where hr: "hidden = [hr]" "length hr = hs"
    unfolding shape2_one by blast
  note rows = cr(1) ir(1) hr(1) and lens = cr(2) ir(2) hr(2)
  let ?ic = "cr @ ir @ hr"
  have lic: "length ?ic = n_categories d + input_size + hs" using lens by simp
  from r have s1: "linear_shape (n_categories d + input_size + hs) hs (i2h r)"
    and s2: "linear_shape (n_categories d + input_size + hs) output_size (i2o r)"
    and s3: "linear_shape (hs + output_size) output_size (o2o r)"
    by (simp_all add: RNN_def)
  from linear_apply_row [OF s1 lic] obtain h' where
    h': "linear_apply (i2h r) [?ic] = Inr [h']" "length h' = hs" by blast
  from linear_apply_row [OF s2 lic] obtain o1 where
    o1: "linear_apply (i2o r) [?ic] = Inr [o1]" "length o1 = output_size" by blast
  have "length (h' @ o1) = hs + output_size" using h' o1 by simp
  from linear_apply_row [OF s3 this] obtain o2 where
    o2: "linear_apply (o2o r) [h' @ o1] = Inr [o2]" "length o2 = output_size" by blast
  from length_apply_mask_row [of "g 0" o2] obtain o3 where
    o3: "apply_mask (g 0) [o2] = [o3]" "length o3 = length o2" by blast
  from log_softmax_row [of o3] obtain o4 where
    o4: "log_softmax [o3] = [o4]" "length o4 = length o3" by blast
  have "forward r g category input hidden = Inr ([o4], [h'], (\<lambda>k. g (Suc k)))"
    using rows h' o1 o2 o3 o4 by (simp add: forward_def dropout_def)
  moreover have "shape2 1 output_size [o4]" using o4 o3 o2 by (simp add: shape2_def)
  moreover have "shape2 1 hs [h']" using h' by (simp add: shape2_def)
  ultimately show ?thesis by blast
qed

lemma largest_mem:
  "i \<in> set (largest row) \<longleftrightarrow> i < length row \<and> (\<forall>j<length row. row ! j \<le> row ! i)"
  by (auto simp: largest_def list_all_length)

lemma largest_ne: "row \<noteq> [] \<Longrightarrow> largest row \<noteq> []"
proof -
  assume "row \<noteq> []"
  then have "Max (set row) \<in> set row" by simp
  then obtain i where i: "i < length row" "row ! i = Max (set row)"
    by (auto simp: in_set_conv_nth)
  then have "i \<in> set (largest row)" by (auto simp: largest_mem)
  then show ?thesis by auto
qed

lemma argmax_in: "row \<noteq> [] \<Longrightarrow> argmax ties row \<in> set (largest row)"
  unfolding argmax_def using largest_ne [of row] by simp

lemma argmax_less: "row \<noteq> [] \<Longrightarrow> argmax ties row < length row"
  using argmax_in [of row ties] by (simp add: largest_mem)

lemma argmax_greatest: "i < length row \<Longrightarrow> row ! i \<le> row ! argmax ties row"
  using argmax_in [of row ties] by (cases row) (auto simp: largest_mem)

lemma argmax_unique:
  assumes "k < length row" and "\<forall>j<length row. j \<noteq> k \<longrightarrow> row ! j < row ! k"
  shows "argmax ties row = k"
proof (rule ccontr)
  assume n: "argmax ties row \<noteq> k"
  from assms(1) have ne: "row \<noteq> []" by auto
  from argmax_less [OF ne] n assms(2) have "row ! argmax ties row < row ! k" by blast
  moreover from argmax_greatest [OF assms(1)] have "row ! k \<le> row ! argmax ties row" .
  ultimately show False by simp
qed

lemma topk1_row: "r \<noteq> [] \<Longrightarrow> topk1 ties [r] = Inr [[argmax ties r]]"
  by (simp add: topk1_def)

lemma inputTensor_letter: "inputTensor [c] = Inr [[one_hot n_letters (letter_slot c)]]"
  by (simp add: inputTensor_eq)


lemma shape2_one_hot: "shape2 1 n [one_hot n i]"
  by (simp add: shape2_def length_one_hot)

lemma sample_loop_run:
  assumes r: "RNN d n_letters hs n_letters r"
    and c: "shape2 1 (n_categories d) ct"
  shows "shape2 1 n_letters x \<Longrightarrow> shape2 1 hs hidden \<Longrightarrow>
         \<exists>g' tops. sample_loop ties r ct n ([x], hidden, output_name, g)
                      = Inr (output_name @ map (nth all_letters) (filter (\<lambda>t. t \<noteq> n_letters - 1) tops), g') \<and>
                    network_run ties r ct ([x], hidden, g) tops \<and> length tops \<le> n \<and>
                    (length tops < n \<longrightarrow> tops \<noteq> [] \<and> last tops = n_letters - 1)"
proof (induction n arbitrary: x hidden output_name g)
  case 0
  have "network_run ties r ct ([x], hidden, g) []" by (rule run_none)
  then have "sample_loop ties r ct 0 ([x], hidden, output_name, g)
          = Inr (output_name @ map (nth all_letters) (filter (\<lambda>t. t \<noteq> n_letters - 1) []), g) \<and>
        network_run ties r ct ([x], hidden, g) [] \<and> length ([] :: nat list) \<le> 0 \<and>
        (length ([] :: nat list) < 0 \<longrightarrow> ([] :: nat list) \<noteq> [] \<and> last [] = n_letters - 1)"
    by simp
  then show ?case by blast
next
  case (Suc n)
  from forward_shape [OF r c Suc.prems(1) Suc.prems(2), of g] obtain out hidden' where
    f: "forward r g ct x hidden = Inr (out, hidden', (\<lambda>k. g (Suc k)))"
    and so: "shape2 1 n_letters out" and sh: "shape2 1 hs hidden'"
    by blast
  from so obtain row where row: "out = [row]" "length row = n_letters"
    unfolding shape2_one by blast
  then have rne: "row \<noteq> []" by (auto simp: n_letters_59)
  let ?top = "argmax ties row"
  from rne have tk: "topk1 ties out = Inr [[?top]]" using row by (simp add: topk1_row)
  from argmax_less [OF rne] row have tl: "?top < n_letters" by simp
  show ?case
  proof (cases "?top = n_letters - 1")
    case True
    from f True row have "network_run ties r ct ([x], hidden, g) [n_letters - 1]"
      by (intro run_eos [where out = out]) simp_all
    moreover have "sample_loop ties r ct (Suc n) ([x], hidden, output_name, g)
                   = Inr (output_name, (\<lambda>k. g (Suc k)))"
      using f tk True by simp
    ultimately have "sample_loop ties r ct (Suc n) ([x], hidden, output_name, g)
          = Inr (output_name @ map (nth all_letters) (filter (\<lambda>t. t \<noteq> n_letters - 1) [n_letters - 1]),
                 (\<lambda>k. g (Suc k))) \<and>
        network_run ties r ct ([x], hidden, g) [n_letters - 1] \<and> length [n_letters - 1] \<le> Suc n \<and>
        (length [n_letters - 1] < Suc n \<longrightarrow> [n_letters - 1] \<noteq> [] \<and> last [n_letters - 1] = n_letters - 1)"
      by simp
    then show ?thesis by blast
  next
    case False
    with tl have tlt: "?top < length all_letters" by (simp add: n_letters_def)
    let ?letter = "all_letters ! ?top"
    let ?x' = "[one_hot n_letters (letter_slot ?letter)]"
    have it: "inputTensor [?letter] = Inr [?x']" by (rule inputTensor_letter)
    have sx: "shape2 1 n_letters ?x'" by (rule shape2_one_hot)
    from Suc.IH [OF sx sh, of "output_name @ [?letter]" "\<lambda>k. g (Suc k)"]
    obtain g' tops where
      ih: "sample_loop ties r ct n ([?x'], hidden', output_name @ [?letter], (\<lambda>k. g (Suc k)))
             = Inr ((output_name @ [?letter])
                    @ map (nth all_letters) (filter (\<lambda>t. t \<noteq> n_letters - 1) tops), g')"
        "network_run ties r ct ([?x'], hidden', (\<lambda>k. g (Suc k))) tops" "length tops \<le> n"
        "length tops < n \<longrightarrow> tops \<noteq> [] \<and> last tops = n_letters - 1"
      by blast
    have run: "network_run ties r ct ([x], hidden, g) (?top # tops)"
      using f row False it ih(2)
      by (intro run_letter [where out = out and input' = "[?x']"]) simp_all
    have "sample_loop ties r ct (Suc n) ([x], hidden, output_name, g)
          = Inr (output_name @ map (nth all_letters) (filter (\<lambda>t. t \<noteq> n_letters - 1) (?top # tops)), g')"
      using f tk False tlt it ih(1) by (simp add: Let_def)
    moreover have "length (?top # tops) \<le> Suc n" using ih(3) by simp
    moreover have "length (?top # tops) < Suc n \<longrightarrow>
                   ?top # tops \<noteq> [] \<and> last (?top # tops) = n_letters - 1"
      using ih(4) by auto
    ultimately show ?thesis using run by blast
  qed
qed


subsection \<open>train\<close>

lemma foldl_add_loss_tensor: "foldl add_loss (LossTensor x) ls = LossTensor (x + sum_list ls)"
  by (induction ls arbitrary: x) (simp_all add: add_loss_def add.assoc)

lemma foldl_add_loss_zero: "ls \<noteq> [] \<Longrightarrow> foldl add_loss IntZero ls = LossTensor (sum_list ls)"
  by (cases ls) (simp_all add: add_loss_def foldl_add_loss_tensor)

lemma train_loop_spec:
  assumes "\<forall>i\<in>set idx. i < length tt"
    and "forward_all r ct (map (nth it) idx) (h, g) = Inr (outs, h', g')"
    and "losses_all outs (map (nth tt) idx) = Inr ls"
  shows "train_loop r ct it tt idx (ou, h, loss, g)
         = Inr (if outs = [] then ou else Some (last outs), h', foldl add_loss loss ls, g') \<and>
         length outs = length idx \<and> length ls = length idx"
  using assms
proof (induction idx arbitrary: ou h loss g outs ls)
  case Nil
  then show ?case by simp
next
  case (Cons i rest)
  from Cons.prems(2) obtain out h1 g1 outs' where
    f: "forward r g ct (it ! i) h = Inr (out, h1, g1)"
    and fa: "forward_all r ct (map (nth it) rest) (h1, g1) = Inr (outs', h', g')"
    and outs: "outs = out # outs'"
    by (auto split: sum.splits)
  from Cons.prems(3) outs obtain l ls' where
    c: "criterion out (tt ! i) = Inr l"
    and la: "losses_all outs' (map (nth tt) rest) = Inr ls'"
    and ls: "ls = l # ls'"
    by (auto split: sum.splits)
  from Cons.prems(1) have i: "i < length tt" and rest: "\<forall>i\<in>set rest. i < length tt"
    by simp_all
  from Cons.IH [OF rest fa la, of "Some out" "add_loss loss l"]
  have ih: "train_loop r ct it tt rest (Some out, h1, add_loss loss l, g1)
            = Inr (if outs' = [] then Some out else Some (last outs'), h',
                   foldl add_loss (add_loss loss l) ls', g')"
    and lens: "length outs' = length rest" "length ls' = length rest"
    by simp_all
  from f i c ih have "train_loop r ct it tt (i # rest) (ou, h, loss, g)
     = Inr (if outs' = [] then Some out else Some (last outs'), h',
            foldl add_loss (add_loss loss l) ls', g')"
    by simp
  with outs ls lens show ?case by simp
qed

lemma forward_all_shape:
  assumes r: "RNN d input_size hs output_size r"
    and c: "shape2 1 (n_categories d) ct"
  shows "list_all (shape2 1 input_size) xs \<Longrightarrow> shape2 1 hs h \<Longrightarrow>
         \<exists>outs h' g'. forward_all r ct xs (h, g) = Inr (outs, h', g') \<and>
            length outs = length xs \<and> list_all (shape2 1 output_size) outs \<and> shape2 1 hs h'"
proof (induction xs arbitrary: h g)
  case Nil
  then show ?case by simp
next
  case (Cons x xs)
  from Cons.prems have x: "shape2 1 input_size x" and xs: "list_all (shape2 1 input_size) xs"
    by simp_all
  from forward_shape [OF r c x Cons.prems(2), of g] obtain out h1 where
    f: "forward r g ct x h = Inr (out, h1, (\<lambda>k. g (Suc k)))"
    and so: "shape2 1 output_size out" and sh: "shape2 1 hs h1"
    by blast
  from Cons.IH [OF xs sh, of "\<lambda>k. g (Suc k)"] obtain outs h' g' where
    fa: "forward_all r ct xs (h1, (\<lambda>k. g (Suc k))) = Inr (outs, h', g')"
    and l: "length outs = length xs" and ss: "list_all (shape2 1 output_size) outs"
    and sh': "shape2 1 hs h'"
    by blast
  from f fa have "forward_all r ct (x # xs) (h, g) = Inr (out # outs, h', g')" by simp
  with l so ss sh' show ?case by simp
qed

lemma criterion_row:
  assumes "length row = n" and "0 \<le> c" and "c < int n"
  shows "criterion [row] [c] = Inr (- (row ! nat c))"
  using assms by (simp add: criterion_def)

lemma losses_all_shape:
  "list_all (shape2 1 n) outs \<Longrightarrow> list_all (\<lambda>c. 0 \<le> c \<and> c < int n) cs \<Longrightarrow>
   length outs \<le> length cs \<Longrightarrow>
   \<exists>ls. losses_all outs (map (\<lambda>c. [c]) cs) = Inr ls \<and> length ls = length outs \<and>
        (\<forall>i<length outs. ls ! i = - (outs ! i ! 0 ! nat (cs ! i)))"
proof (induction outs arbitrary: cs)
  case Nil
  then show ?case by simp
next
  case (Cons out outs)
  from Cons.prems(3) obtain c cs' where cs: "cs = c # cs'" by (cases cs) auto
  from Cons.prems(1) obtain row where row: "out = [row]" "length row = n"
    unfolding shape2_one by auto
  from Cons.prems(2) cs have c: "0 \<le> c" "c < int n" by simp_all
  from criterion_row [OF row(2) c] row have cr: "criterion out [c] = Inr (- (row ! nat c))"
    by simp
  from Cons.prems cs have "list_all (shape2 1 n) outs" "list_all (\<lambda>c. 0 \<le> c \<and> c < int n) cs'"
    "length outs \<le> length cs'" by simp_all
  from Cons.IH [OF this] obtain ls where
    ls: "losses_all outs (map (\<lambda>c. [c]) cs') = Inr ls" "length ls = length outs"
        "\<forall>i<length outs. ls ! i = - (outs ! i ! 0 ! nat (cs' ! i))"
    by blast
  let ?ls = "(- (row ! nat c)) # ls"
  have "losses_all (out # outs) (map (\<lambda>c. [c]) cs) = Inr ?ls"
    using cs cr ls(1) by simp
  moreover have "length ?ls = length (out # outs)" using ls(2) by simp
  moreover have "\<forall>i<length (out # outs). ?ls ! i = - ((out # outs) ! i ! 0 ! nat (cs ! i))"
  proof (intro allI impI)
    fix i assume "i < length (out # outs)"
    then show "?ls ! i = - ((out # outs) ! i ! 0 ! nat (cs ! i))"
      using ls(3) cs row by (cases i) simp_all
  qed
  ultimately show ?case by blast
qed


lemma concat_map2:
  "map length w = map length gw \<Longrightarrow>
   concat (map2 (\<lambda>r s. map2 f r s) w gw) = map2 f (concat w) (concat gw)"
proof (induction w arbitrary: gw)
  case Nil
  then show ?case by simp
next
  case (Cons a w)
  then obtain b gw' where gw: "gw = b # gw'" by (cases gw) auto
  with Cons.prems have "length a = length b" "map length w = map length gw'" by simp_all
  with Cons.IH [of gw'] gw show ?case by simp
qed

lemma update_linear_ok:
  assumes "same_shape l gr"
  shows "update_linear l gr
         = Inr \<lparr>weight = map2 (\<lambda>r s. map2 (\<lambda>x y. x + (- learning_rate) * y) r s) (weight l) (weight gr),
                bias = map2 (\<lambda>x y. x + (- learning_rate) * y) (bias l) (bias gr)\<rparr>"
  using assms by (simp add: update_linear_def add_1_def add_2_def same_shape_def)

lemma map2_length_rows:
  "map length w = map length gw \<Longrightarrow> map length (map2 (\<lambda>r s. map2 f r s) w gw) = map length w"
proof (induction w arbitrary: gw)
  case Nil
  then show ?case by simp
next
  case (Cons a w)
  then obtain b gw' where gw: "gw = b # gw'" by (cases gw) auto
  with Cons.prems have "length a = length b" "map length w = map length gw'" by simp_all
  with Cons.IH [of gw'] gw show ?case by simp
qed

lemma rows_replicate:
  "list_all (\<lambda>w. length w = n) ws \<longleftrightarrow> map length ws = replicate (length ws) n"
  by (induction ws) auto

lemma linear_shape_rows:
  "linear_shape n_in n_out l \<longleftrightarrow>
     map length (weight l) = replicate n_out n_in \<and> length (bias l) = n_out"
proof -
  have "(length (weight l) = n_out \<and> list_all (\<lambda>w. length w = n_in) (weight l))
        = (map length (weight l) = replicate n_out n_in)"
  proof
    assume "length (weight l) = n_out \<and> list_all (\<lambda>w. length w = n_in) (weight l)"
    then show "map length (weight l) = replicate n_out n_in"
      using rows_replicate [of n_in "weight l"] by simp
  next
    assume a: "map length (weight l) = replicate n_out n_in"
    then have "length (map length (weight l)) = length (replicate n_out n_in)" by simp
    then have "length (weight l) = n_out" by simp
    with a show "length (weight l) = n_out \<and> list_all (\<lambda>w. length w = n_in) (weight l)"
      using rows_replicate [of n_in "weight l"] by simp
  qed
  then show ?thesis unfolding linear_shape_def by blast
qed

lemma update_linear_shape:
  assumes "linear_shape n_in n_out l" and "same_shape l gr" and "update_linear l gr = Inr l'"
  shows "linear_shape n_in n_out l'"
proof -
  from assms(2) have m: "map length (weight l) = map length (weight gr)"
    and b: "length (bias l) = length (bias gr)"
    by (simp_all add: same_shape_def)
  from assms(3) update_linear_ok [OF assms(2)]
  have l': "weight l' = map2 (\<lambda>r s. map2 (\<lambda>x y. x + (- learning_rate) * y) r s) (weight l) (weight gr)"
    "bias l' = map2 (\<lambda>x y. x + (- learning_rate) * y) (bias l) (bias gr)"
    by auto
  from l'(1) map2_length_rows [OF m] have "map length (weight l') = map length (weight l)"
    by simp
  moreover from l'(2) b have "length (bias l') = length (bias l)" by simp
  ultimately show ?thesis using assms(1) by (simp add: linear_shape_rows)
qed

lemma update_linear_sgd: "same_shape l gr \<Longrightarrow> update_linear l gr = Inr (sgd_linear l gr)"
  by (simp add: update_linear_ok sgd_linear_def)

lemma update_parameters_fields:
  assumes "grad_shape r gr"
  shows "\<exists>r'. update_parameters r gr = Inr r' \<and> hidden_size r' = hidden_size r \<and>
           i2h r' = sgd_linear (i2h r) (grad_i2h gr) \<and>
           i2o r' = sgd_linear (i2o r) (grad_i2o gr) \<and>
           o2o r' = sgd_linear (o2o r) (grad_o2o gr)"
proof -
  from assms have s: "same_shape (i2h r) (grad_i2h gr)" "same_shape (i2o r) (grad_i2o gr)"
    "same_shape (o2o r) (grad_o2o gr)"
    by (simp_all add: grad_shape_def)
  show ?thesis
    by (simp add: update_parameters_def update_linear_sgd [OF s(1)] update_linear_sgd [OF s(2)]
        update_linear_sgd [OF s(3)])
qed

lemma sgd_linear_entries:
  assumes "same_shape l gr"
  shows "concat (weight (sgd_linear l gr))
         = map2 (\<lambda>x y. x - learning_rate * y) (concat (weight l)) (concat (weight gr))"
    and "bias (sgd_linear l gr) = map2 (\<lambda>x y. x - learning_rate * y) (bias l) (bias gr)"
proof -
  from assms have m: "map length (weight l) = map length (weight gr)"
    by (simp add: same_shape_def)
  have f: "(\<lambda>x y. x + (- learning_rate) * y) = (\<lambda>x y. x - learning_rate * y)"
    by (intro ext) simp
  have "concat (weight (sgd_linear l gr))
        = map2 (\<lambda>x y. x + (- learning_rate) * y) (concat (weight l)) (concat (weight gr))"
    unfolding sgd_linear_def linear.simps by (rule concat_map2 [OF m])
  then show "concat (weight (sgd_linear l gr))
         = map2 (\<lambda>x y. x - learning_rate * y) (concat (weight l)) (concat (weight gr))"
    by (simp only: f)
  show "bias (sgd_linear l gr) = map2 (\<lambda>x y. x - learning_rate * y) (bias l) (bias gr)"
    unfolding sgd_linear_def linear.simps by (simp only: f)
qed

lemma sgd_linear_shape:
  assumes "linear_shape n_in n_out l" and "same_shape l gr"
  shows "linear_shape n_in n_out (sgd_linear l gr)"
  using update_linear_shape [OF assms update_linear_sgd [OF assms(2)]] .

lemma update_parameters_ok:
  assumes "grad_shape r gr"
  shows "\<exists>r'. update_parameters r gr = Inr r' \<and> hidden_size r' = hidden_size r \<and>
           parameters r' = map2 (\<lambda>p q. map2 (\<lambda>x y. x - learning_rate * y) p q)
                             (parameters r) (gradients gr) \<and>
           (\<forall>d isz hs osz. RNN d isz hs osz r \<longrightarrow> RNN d isz hs osz r')"
proof -
  from assms have s: "same_shape (i2h r) (grad_i2h gr)" "same_shape (i2o r) (grad_i2o gr)"
    "same_shape (o2o r) (grad_o2o gr)"
    by (simp_all add: grad_shape_def)
  from update_parameters_fields [OF assms] obtain r' where
    u: "update_parameters r gr = Inr r'" and hs: "hidden_size r' = hidden_size r"
    and l1: "i2h r' = sgd_linear (i2h r) (grad_i2h gr)"
    and l2: "i2o r' = sgd_linear (i2o r) (grad_i2o gr)"
    and l3: "o2o r' = sgd_linear (o2o r) (grad_o2o gr)"
    by blast
  have p: "parameters r' = map2 (\<lambda>p q. map2 (\<lambda>x y. x - learning_rate * y) p q)
                             (parameters r) (gradients gr)"
    unfolding parameters_def gradients_def l1 l2 l3
    by (simp only: sgd_linear_entries [OF s(1)] sgd_linear_entries [OF s(2)]
        sgd_linear_entries [OF s(3)] zip.simps list.map prod.case list.case)
  have sh: "\<forall>d isz hs osz. RNN d isz hs osz r \<longrightarrow> RNN d isz hs osz r'"
    unfolding RNN_def l1 l2 l3 hs
    using sgd_linear_shape [OF _ s(1)] sgd_linear_shape [OF _ s(2)] sgd_linear_shape [OF _ s(3)]
    by blast
  from u hs p sh show ?thesis by blast
qed


lemma train_loop_run:
  assumes r: "RNN d input_size hs output_size r"
    and c: "shape2 1 (n_categories d) category_tensor"
    and L: "input_line_tensor \<noteq> []"
    and i: "list_all (shape2 1 input_size) input_line_tensor"
    and t: "length input_line_tensor \<le> length target_line_tensor"
    and tr: "list_all (\<lambda>c. 0 \<le> c \<and> c < int output_size) target_line_tensor"
  shows "\<exists>outs hidden' g' ls.
     forward_all r category_tensor input_line_tensor (initHidden r, g) = Inr (outs, hidden', g') \<and>
     length outs = length input_line_tensor \<and>
     length ls = length input_line_tensor \<and>
     (\<forall>i<length input_line_tensor.
        criterion (outs ! i) [target_line_tensor ! i] = Inr (ls ! i) \<and>
        ls ! i = - (outs ! i ! 0 ! nat (target_line_tensor ! i))) \<and>
     train_loop r category_tensor input_line_tensor (map (\<lambda>c. [c]) target_line_tensor)
       [0..<length input_line_tensor] (None, initHidden r, IntZero, g)
       = Inr (Some (last outs), hidden', LossTensor (sum_list ls), g')"
proof -
  let ?L = "length input_line_tensor"
  let ?tt = "map (\<lambda>c. [c]) target_line_tensor"
  from r have "hidden_size r = hs" by (simp add: RNN_def)
  then have h0: "shape2 1 hs (initHidden r)" by (simp add: initHidden_def shape2_zeros2)
  from forward_all_shape [OF r c i h0, of g] obtain outs hidden' g' where
    fa: "forward_all r category_tensor input_line_tensor (initHidden r, g) = Inr (outs, hidden', g')"
    and lo: "length outs = ?L" and so: "list_all (shape2 1 output_size) outs"
    by blast
  let ?cs = "take ?L target_line_tensor"
  have "list_all (\<lambda>c. 0 \<le> c \<and> c < int output_size) ?cs"
    using tr by (auto simp: list_all_iff dest: in_set_takeD)
  moreover have "length outs \<le> length ?cs" using lo t by simp
  ultimately obtain ls where
    la: "losses_all outs (map (\<lambda>c. [c]) ?cs) = Inr ls" and ll: "length ls = length outs"
    and lv: "\<forall>i<length outs. ls ! i = - (outs ! i ! 0 ! nat (?cs ! i))"
    using losses_all_shape [OF so, of ?cs] by blast
  have idx: "map (nth input_line_tensor) [0..<?L] = input_line_tensor"
    by (rule map_nth)
  have tidx: "map (nth ?tt) [0..<?L] = map (\<lambda>c. [c]) ?cs"
    using t by (intro nth_equalityI) simp_all
  have bound: "\<forall>i\<in>set [0..<?L]. i < length ?tt" using t by simp
  from train_loop_spec [OF bound, of r category_tensor input_line_tensor "initHidden r" g
      outs hidden' g' ls None IntZero] fa la idx tidx
  have tl: "train_loop r category_tensor input_line_tensor ?tt [0..<?L]
              (None, initHidden r, IntZero, g)
            = Inr (if outs = [] then None else Some (last outs), hidden',
                   foldl add_loss IntZero ls, g')"
    by simp
  from L lo have one: "outs \<noteq> []" by auto
  with ll have lne: "ls \<noteq> []" by auto
  from tl one foldl_add_loss_zero [OF lne]
  have tl': "train_loop r category_tensor input_line_tensor ?tt [0..<?L]
              (None, initHidden r, IntZero, g)
            = Inr (Some (last outs), hidden', LossTensor (sum_list ls), g')"
    by simp
  have each: "\<forall>i<?L. criterion (outs ! i) [target_line_tensor ! i] = Inr (ls ! i) \<and>
        ls ! i = - (outs ! i ! 0 ! nat (target_line_tensor ! i))"
  proof (intro allI impI)
    fix k assume k: "k < ?L"
    with lo so have "shape2 1 output_size (outs ! k)" by (simp add: list_all_length)
    then obtain row where row: "outs ! k = [row]" "length row = output_size"
      unfolding shape2_one by blast
    from k t tr have rng: "0 \<le> target_line_tensor ! k" "target_line_tensor ! k < int output_size"
      by (simp_all add: list_all_length)
    from k lo lv have v: "ls ! k = - (outs ! k ! 0 ! nat (target_line_tensor ! k))" by simp
    from criterion_row [OF row(2) rng] row v
    show "criterion (outs ! k) [target_line_tensor ! k] = Inr (ls ! k) \<and>
        ls ! k = - (outs ! k ! 0 ! nat (target_line_tensor ! k))"
      by simp
  qed
  from fa lo ll each tl' show ?thesis
    by (intro exI [of _ outs] exI [of _ hidden'] exI [of _ g'] exI [of _ ls]) simp
qed

lemma train_spec:
  assumes r: "RNN d input_size hs output_size r"
    and c: "shape2 1 (n_categories d) category_tensor"
    and L: "input_line_tensor \<noteq> []"
    and i: "list_all (shape2 1 input_size) input_line_tensor"
    and t: "length input_line_tensor \<le> length target_line_tensor"
    and tr: "list_all (\<lambda>c. 0 \<le> c \<and> c < int output_size) target_line_tensor"
    and gs: "grad_shape r
               (backward r g category_tensor input_line_tensor (map (\<lambda>c. [c]) target_line_tensor))"
  shows "\<exists>outs hidden' g' ls r'.
     forward_all r category_tensor input_line_tensor (initHidden r, g) = Inr (outs, hidden', g') \<and>
     length outs = length input_line_tensor \<and>
     length ls = length input_line_tensor \<and>
     (\<forall>i<length input_line_tensor.
        criterion (outs ! i) [target_line_tensor ! i] = Inr (ls ! i) \<and>
        ls ! i = - (outs ! i ! 0 ! nat (target_line_tensor ! i))) \<and>
     summed_loss r g category_tensor input_line_tensor target_line_tensor = sum_list ls \<and>
     train backward r g category_tensor input_line_tensor target_line_tensor
       = Inr ((last outs, sum_list ls / real (length input_line_tensor)), r', g') \<and>
     parameters r'
       = map2 (\<lambda>p q. map2 (\<lambda>x y. x - learning_rate * y) p q) (parameters r)
           (gradients (backward r g category_tensor input_line_tensor
                         (map (\<lambda>c. [c]) target_line_tensor))) \<and>
     hidden_size r' = hidden_size r \<and> RNN d input_size hs output_size r'"
proof -
  let ?L = "length input_line_tensor"
  let ?tt = "map (\<lambda>c. [c]) target_line_tensor"
  let ?gr = "backward r g category_tensor input_line_tensor ?tt"
  from train_loop_run [OF r c L i t tr, of g] obtain outs hidden' g' ls where
    fa: "forward_all r category_tensor input_line_tensor (initHidden r, g) = Inr (outs, hidden', g')"
    and lo: "length outs = ?L" and ll: "length ls = ?L"
    and each: "\<forall>i<?L. criterion (outs ! i) [target_line_tensor ! i] = Inr (ls ! i) \<and>
        ls ! i = - (outs ! i ! 0 ! nat (target_line_tensor ! i))"
    and tl': "train_loop r category_tensor input_line_tensor ?tt [0..<?L]
              (None, initHidden r, IntZero, g)
            = Inr (Some (last outs), hidden', LossTensor (sum_list ls), g')"
    by blast
  from update_parameters_ok [OF gs] obtain r' where
    u: "update_parameters r ?gr = Inr r'" and hs: "hidden_size r' = hidden_size r"
    and p: "parameters r' = map2 (\<lambda>p q. map2 (\<lambda>x y. x - learning_rate * y) p q)
                              (parameters r) (gradients ?gr)"
    and sh: "\<forall>d isz hs osz. RNN d isz hs osz r \<longrightarrow> RNN d isz hs osz r'"
    by blast
  have tr': "train backward r g category_tensor input_line_tensor target_line_tensor
       = Inr ((last outs, sum_list ls / real ?L), r', g')"
    using tl' u by (simp add: train_def Let_def)
  have sl: "summed_loss r g category_tensor input_line_tensor target_line_tensor = sum_list ls"
    using tl' by (simp add: summed_loss_def)
  from r sh have "RNN d input_size hs output_size r'" by blast
  with fa lo ll each tr' p hs sl show ?thesis by (intro exI [of _ outs] exI [of _ hidden']
        exI [of _ g'] exI [of _ ls] exI [of _ r']) simp
qed


subsection \<open>The differentiation\<close>

lemma dot_sum: "length u = length v \<Longrightarrow> dot u v = (\<Sum>i<length u. u ! i * v ! i)"
proof -
  assume l: "length u = length v"
  have "dot u v = (\<Sum>i = 0..<length (map2 (*) u v). map2 (*) u v ! i)"
    unfolding dot_def by (rule sum_list_sum_nth)
  also have "\<dots> = (\<Sum>i<length u. u ! i * v ! i)"
    using l by (intro sum.cong) (auto simp: lessThan_atLeast0)
  finally show ?thesis .
qed

lemma vderivI:
  "(\<And>y. length (f y) = n) \<Longrightarrow> length f' = n \<Longrightarrow>
   (\<And>i. i < n \<Longrightarrow> DERIV (\<lambda>y. f y ! i) x :> f' ! i) \<Longrightarrow> vderiv f x f'"
  by (simp add: vderiv_def)

lemma vderiv_length: "vderiv f x f' \<Longrightarrow> length (f y) = length f'"
  by (simp add: vderiv_def)

lemma vderiv_nth: "vderiv f x f' \<Longrightarrow> i < length f' \<Longrightarrow> DERIV (\<lambda>y. f y ! i) x :> f' ! i"
  by (simp add: vderiv_def)

lemma vderiv_const: "vderiv (\<lambda>y. c) x (map (\<lambda>v. 0) c)"
  by (simp add: vderiv_def)

lemma vderiv_append:
  assumes "vderiv f x f'" and "vderiv g x g'"
  shows "vderiv (\<lambda>y. f y @ g y) x (f' @ g')"
proof (rule vderivI [where n = "length f' + length g'"])
  fix y show "length (f y @ g y) = length f' + length g'"
    using assms by (simp add: vderiv_length)
next
  show "length (f' @ g') = length f' + length g'" by simp
next
  fix i assume i: "i < length f' + length g'"
  show "DERIV (\<lambda>y. (f y @ g y) ! i) x :> (f' @ g') ! i"
  proof (cases "i < length f'")
    case True
    with assms have "(\<lambda>y. (f y @ g y) ! i) = (\<lambda>y. f y ! i)"
      by (intro ext) (simp add: nth_append vderiv_length)
    with True vderiv_nth [OF assms(1) True] show ?thesis by (simp add: nth_append)
  next
    case False
    with assms have e: "(\<lambda>y. (f y @ g y) ! i) = (\<lambda>y. g y ! (i - length f'))"
      by (intro ext) (simp add: nth_append vderiv_length)
    from False i have "i - length f' < length g'" by simp
    from vderiv_nth [OF assms(2) this] e False show ?thesis by (simp add: nth_append)
  qed
qed

lemma DERIV_dot:
  assumes u: "vderiv u x u'" and v: "vderiv v x v'" and l: "length u' = length v'"
  shows "DERIV (\<lambda>y. dot (u y) (v y)) x :> dot u' (v x) + dot (u x) v'"
proof -
  let ?n = "length u'"
  have e: "(\<lambda>y. dot (u y) (v y)) = (\<lambda>y. \<Sum>i<?n. u y ! i * v y ! i)"
  proof
    fix y
    have "length (u y) = length (v y)" using u v l by (simp add: vderiv_length)
    from dot_sum [OF this] show "dot (u y) (v y) = (\<Sum>i<?n. u y ! i * v y ! i)"
      using u by (simp add: vderiv_length)
  qed
  have "DERIV (\<lambda>y. \<Sum>i<?n. u y ! i * v y ! i) x :> (\<Sum>i<?n. u' ! i * v x ! i + u x ! i * v' ! i)"
  proof (rule DERIV_sum)
    fix i assume "i \<in> {..<?n}"
    then have i: "i < length u'" "i < length v'" using l by simp_all
    from DERIV_mult [OF vderiv_nth [OF u i(1)] vderiv_nth [OF v i(2)]]
    show "DERIV (\<lambda>y. u y ! i * v y ! i) x :> u' ! i * v x ! i + u x ! i * v' ! i"
      by (simp add: mult.commute add.commute)
  qed
  moreover have "(\<Sum>i<?n. u' ! i * v x ! i + u x ! i * v' ! i) = dot u' (v x) + dot (u x) v'"
  proof -
    have a: "dot u' (v x) = (\<Sum>i<?n. u' ! i * v x ! i)"
      using dot_sum [of u' "v x"] v l by (simp add: vderiv_length)
    have b: "dot (u x) v' = (\<Sum>i<?n. u x ! i * v' ! i)"
      using dot_sum [of "u x" v'] u l by (simp add: vderiv_length)
    show ?thesis by (simp add: a b sum.distrib)
  qed
  ultimately show ?thesis by (simp add: e)
qed


lemma mderiv_row: "mderiv f x f' \<Longrightarrow> i < length f' \<Longrightarrow> vderiv (\<lambda>y. f y ! i) x (f' ! i)"
  by (simp add: mderiv_def)

lemma mderiv_length: "mderiv f x f' \<Longrightarrow> length (f y) = length f'"
  by (simp add: mderiv_def)

lemma affine_nth:
  "i < length (weight l) \<Longrightarrow> i < length (bias l) \<Longrightarrow>
   affine l x ! i = dot (weight l ! i) x + bias l ! i"
  by (simp add: affine_def)

lemma length_affine: "length (affine l x) = min (length (weight l)) (length (bias l))"
  by (simp add: affine_def)

lemma affine_vderiv:
  assumes L: "lderiv L x T" and b: "length (weight T) = length (bias T)"
    and rows: "\<forall>i<length (weight T). length (weight T ! i) = length X'"
    and X: "vderiv X x X'"
  shows "vderiv (\<lambda>y. affine (L y) (X y)) x (affine_d (L x) T (X x) X')"
proof (rule vderivI [where n = "length (bias T)"])
  from L have W: "mderiv (\<lambda>y. weight (L y)) x (weight T)" and B: "vderiv (\<lambda>y. bias (L y)) x (bias T)"
    by (simp_all add: lderiv_def)
  fix y show "length (affine (L y) (X y)) = length (bias T)"
    using mderiv_length [OF W, of y] vderiv_length [OF B, of y] b by (simp add: length_affine)
next
  show "length (affine_d (L x) T (X x) X') = length (bias T)" by (simp add: affine_d_def)
next
  from L have W: "mderiv (\<lambda>y. weight (L y)) x (weight T)" and B: "vderiv (\<lambda>y. bias (L y)) x (bias T)"
    by (simp_all add: lderiv_def)
  fix i assume i: "i < length (bias T)"
  with b have iw: "i < length (weight T)" by simp
  have e: "(\<lambda>y. affine (L y) (X y) ! i) = (\<lambda>y. dot (weight (L y) ! i) (X y) + bias (L y) ! i)"
  proof
    fix y
    show "affine (L y) (X y) ! i = dot (weight (L y) ! i) (X y) + bias (L y) ! i"
      using mderiv_length [OF W, of y] vderiv_length [OF B, of y] i iw
      by (intro affine_nth) simp_all
  qed
  from rows iw have lr: "length (weight T ! i) = length X'" by simp
  have "DERIV (\<lambda>y. dot (weight (L y) ! i) (X y) + bias (L y) ! i) x
        :> (dot (weight T ! i) (X x) + dot (weight (L x) ! i) X') + bias T ! i"
    by (intro DERIV_add DERIV_dot [OF mderiv_row [OF W iw] X lr] vderiv_nth [OF B i])
  with i show "DERIV (\<lambda>y. affine (L y) (X y) ! i) x :> affine_d (L x) T (X x) X' ! i"
    by (simp add: e affine_d_def)
qed

lemma masked_nth:
  "j < length v \<Longrightarrow> masked keep v ! j = (if keep j then v ! j / (1 - dropout_p) else 0)"
  by (simp add: masked_def nth_enumerate_eq)

lemma length_masked: "length (masked keep v) = length v"
  by (simp add: masked_def)

lemma masked_vderiv:
  assumes "vderiv d x d'"
  shows "vderiv (\<lambda>y. masked keep (d y)) x (masked keep d')"
proof (rule vderivI [where n = "length d'"])
  fix y show "length (masked keep (d y)) = length d'"
    using assms by (simp add: length_masked vderiv_length)
next
  show "length (masked keep d') = length d'" by (simp add: length_masked)
next
  fix j assume j: "j < length d'"
  have e: "(\<lambda>y. masked keep (d y) ! j) = (\<lambda>y. if keep j then d y ! j / (1 - dropout_p) else 0)"
    using assms j by (intro ext masked_nth) (simp add: vderiv_length)
  show "DERIV (\<lambda>y. masked keep (d y) ! j) x :> masked keep d' ! j"
  proof (cases "keep j")
    case True
    from DERIV_cdivide [OF vderiv_nth [OF assms j], of "1 - dropout_p"] True j
    show ?thesis by (simp add: e masked_nth)
  next
    case False
    with j show ?thesis by (simp add: e masked_nth)
  qed
qed

lemma sum_list_exp: "sum_list (map f v) = (\<Sum>i<length v. f (v ! i))"
proof -
  have "sum_list (map f v) = (\<Sum>i = 0..<length (map f v). map f v ! i)"
    by (rule sum_list_sum_nth)
  also have "\<dots> = (\<Sum>i<length v. f (v ! i))"
    by (intro sum.cong) (auto simp: lessThan_atLeast0)
  finally show ?thesis .
qed

lemma softmax_nth: "i < length d \<Longrightarrow> softmax d ! i = exp (d ! i) / sum_list (map exp d)"
  by (simp add: softmax_def)

lemma loss_DERIV:
  assumes d: "vderiv d x d'" and t: "tgt < length d'"
  shows "DERIV (\<lambda>y. - (d y ! tgt - ln (sum_list (map exp (d y))))) x
         :> dot (map (\<lambda>(j, s). if j = tgt then s - 1 else s) (enumerate 0 (softmax (d x)))) d'"
proof -
  let ?n = "length d'"
  let ?S = "\<lambda>y. \<Sum>i<?n. exp (d y ! i)"
  let ?S' = "\<Sum>i<?n. exp (d x ! i) * d' ! i"
  have len: "\<And>y. length (d y) = ?n" using d by (simp add: vderiv_length)
  have e: "\<And>y. sum_list (map exp (d y)) = ?S y"
    by (simp add: sum_list_exp len)
  have pos: "0 < ?S x"
    by (rule sum_pos) (use t in \<open>auto\<close>)
  have dS: "DERIV ?S x :> ?S'"
  proof (rule DERIV_sum)
    fix i assume "i \<in> {..<?n}"
    then have "i < ?n" by simp
    from vderiv_nth [OF d this]
    show "DERIV (\<lambda>y. exp (d y ! i)) x :> exp (d x ! i) * d' ! i"
      by (auto intro!: derivative_eq_intros)
  qed
  have dl: "DERIV (\<lambda>y. ln (?S y)) x :> ?S' / ?S x"
    using DERIV_chain2 [OF DERIV_ln_divide [OF pos] dS] by simp
  have "DERIV (\<lambda>y. - (d y ! tgt - ln (?S y))) x :> - (d' ! tgt - ?S' / ?S x)"
    by (intro DERIV_minus DERIV_diff vderiv_nth [OF d t] dl)
  moreover have "dot (map (\<lambda>(j, s). if j = tgt then s - 1 else s) (enumerate 0 (softmax (d x)))) d'
                 = - (d' ! tgt - ?S' / ?S x)"
  proof -
    let ?g = "map (\<lambda>(j, s). if j = tgt then s - 1 else s) (enumerate 0 (softmax (d x)))"
    have lg: "length ?g = ?n" by (simp add: softmax_def len)
    have gi: "\<And>i. i < ?n \<Longrightarrow> ?g ! i = (if i = tgt then exp (d x ! i) / ?S x - 1 else exp (d x ! i) / ?S x)"
      using len [of x] by (simp add: nth_enumerate_eq softmax_def sum_list_exp)
    have "dot ?g d' = (\<Sum>i<?n. ?g ! i * d' ! i)"
      using dot_sum [of ?g d'] lg by simp
    also have "\<dots> = (\<Sum>i<?n. exp (d x ! i) / ?S x * d' ! i - (if i = tgt then d' ! i else 0))"
      by (intro sum.cong refl) (simp add: gi algebra_simps)
    also have "\<dots> = (\<Sum>i<?n. exp (d x ! i) / ?S x * d' ! i) - d' ! tgt"
      using t by (simp add: sum_subtractf)
    also have "(\<Sum>i<?n. exp (d x ! i) / ?S x * d' ! i) = ?S' / ?S x"
      by (simp add: sum_divide_distrib)
    finally show ?thesis by simp
  qed
  ultimately show ?thesis by (simp add: e)
qed


lemma sum_list_map2:
  "length a = length b \<Longrightarrow> sum_list (map2 f a b) = (\<Sum>i<length a. f (a ! i) (b ! i))"
proof -
  assume l: "length a = length b"
  have "sum_list (map2 f a b) = (\<Sum>i = 0..<length (map2 f a b). map2 f a b ! i)"
    by (rule sum_list_sum_nth)
  also have "\<dots> = (\<Sum>i<length a. f (a ! i) (b ! i))"
    using l by (intro sum.cong) (auto simp: lessThan_atLeast0)
  finally show ?thesis .
qed

lemma dot_commute: "dot a b = dot b a"
proof -
  have "map2 (*) a b = map2 (*) b a"
    by (intro nth_equalityI) (simp_all add: mult.commute)
  then show ?thesis by (simp add: dot_def)
qed

lemma dot_append: "length a = length a' \<Longrightarrow> dot (a @ b) (a' @ b') = dot a a' + dot b b'"
  by (simp add: dot_def)

lemma dot_zeros: "dot (map (\<lambda>v. 0) a) b = 0"
proof -
  have "map2 (*) (map (\<lambda>v. 0 :: real) a) b = replicate (min (length a) (length b)) 0"
    by (intro nth_equalityI) simp_all
  then show ?thesis by (simp add: dot_def sum_list_replicate)
qed

lemma dot_add_left:
  assumes "length a = length c" and "length b = length c"
  shows "dot (map2 (+) a b) c = dot a c + dot b c"
proof -
  have "dot (map2 (+) a b) c = (\<Sum>i<length c. map2 (+) a b ! i * c ! i)"
    using dot_sum [of "map2 (+) a b" c] assms by simp
  also have "\<dots> = (\<Sum>i<length c. a ! i * c ! i + b ! i * c ! i)"
    using assms by (intro sum.cong refl) (simp add: algebra_simps)
  also have "\<dots> = dot a c + dot b c"
    using dot_sum [of a c] dot_sum [of b c] assms by (simp add: sum.distrib)
  finally show ?thesis .
qed

lemma dot_masked:
  assumes "length a = length b"
  shows "dot a (masked keep b) = dot (masked keep a) b"
proof -
  have "dot a (masked keep b) = (\<Sum>i<length a. a ! i * masked keep b ! i)"
    using dot_sum [of a "masked keep b"] assms by (simp add: length_masked)
  also have "\<dots> = (\<Sum>i<length a. masked keep a ! i * b ! i)"
    using assms by (intro sum.cong refl) (simp add: masked_nth)
  also have "\<dots> = dot (masked keep a) b"
    using dot_sum [of "masked keep a" b] assms by (simp add: length_masked)
  finally show ?thesis .
qed

lemma dot_take_drop:
  assumes "length u \<le> length g"
  shows "dot g (u @ v) = dot (take (length u) g) u + dot (drop (length u) g) v"
proof -
  have "dot (take (length u) g @ drop (length u) g) (u @ v)
        = dot (take (length u) g) u + dot (drop (length u) g) v"
    using assms by (intro dot_append) simp
  then show ?thesis by simp
qed

lemma dot_scale: "dot (map ((*) a) x) w = a * dot x w"
  unfolding dot_def by (induction x w rule: list_induct2') (simp_all add: algebra_simps)

lemma dot_affine_d:
  assumes g: "length g = length (bias t)"
    and wt: "length (weight t) = length (bias t)"
    and wl: "length (weight l) = length (bias t)"
    and rl: "\<forall>i<length (weight l). length (weight l ! i) = n"
    and x': "length x' = n"
  shows "dot g (affine_d l t x x')
         = mdot (outer g x) (weight t) + dot (transposed_apply n (weight l) g) x' + dot g (bias t)"
proof -
  let ?m = "length (bias t)"
  have a: "dot g (affine_d l t x x')
           = (\<Sum>i<?m. g ! i * dot (weight t ! i) x) + (\<Sum>i<?m. g ! i * dot (weight l ! i) x')
             + (\<Sum>i<?m. g ! i * bias t ! i)"
  proof -
    have "dot g (affine_d l t x x') = (\<Sum>i<?m. g ! i * affine_d l t x x' ! i)"
      using dot_sum [of g "affine_d l t x x'"] g by (simp add: affine_d_def)
    also have "\<dots> = (\<Sum>i<?m. g ! i * dot (weight t ! i) x + g ! i * dot (weight l ! i) x'
                          + g ! i * bias t ! i)"
      by (intro sum.cong refl) (simp add: affine_d_def algebra_simps)
    finally show ?thesis by (simp add: sum.distrib)
  qed
  have b: "mdot (outer g x) (weight t) = (\<Sum>i<?m. g ! i * dot (weight t ! i) x)"
  proof -
    have "mdot (outer g x) (weight t) = (\<Sum>i<length (outer g x). dot (outer g x ! i) (weight t ! i))"
      unfolding mdot_def using g wt by (intro sum_list_map2) (simp add: outer_def)
    also have "\<dots> = (\<Sum>i<?m. g ! i * dot (weight t ! i) x)"
    proof (intro sum.cong)
      show "{..<length (outer g x)} = {..<?m}" using g by (simp add: outer_def)
    next
      fix i assume "i \<in> {..<?m}"
      with g have "outer g x ! i = map ((*) (g ! i)) x" by (simp add: outer_def)
      then show "dot (outer g x ! i) (weight t ! i) = g ! i * dot (weight t ! i) x"
        using dot_commute [of x "weight t ! i"] by (simp add: dot_scale)
    qed
    finally show ?thesis .
  qed
  have c: "dot (transposed_apply n (weight l) g) x' = (\<Sum>i<?m. g ! i * dot (weight l ! i) x')"
  proof -
    have "dot (transposed_apply n (weight l) g) x'
          = (\<Sum>j<n. transposed_apply n (weight l) g ! j * x' ! j)"
      using dot_sum [of "transposed_apply n (weight l) g" x'] x'
      by (simp add: transposed_apply_def)
    also have "\<dots> = (\<Sum>j<n. (\<Sum>i<?m. g ! i * weight l ! i ! j) * x' ! j)"
    proof (intro sum.cong refl)
      fix j assume "j \<in> {..<n}"
      then have j: "j < n" by simp
      have "sum_list (map2 (\<lambda>row a. a * row ! j) (weight l) g)
            = (\<Sum>i<length (weight l). g ! i * weight l ! i ! j)"
        using wl g by (intro sum_list_map2) simp
      with j wl show "transposed_apply n (weight l) g ! j * x' ! j
                      = (\<Sum>i<?m. g ! i * weight l ! i ! j) * x' ! j"
        by (simp add: transposed_apply_def)
    qed
    also have "\<dots> = (\<Sum>j<n. \<Sum>i<?m. g ! i * (weight l ! i ! j * x' ! j))"
      by (intro sum.cong refl) (simp add: sum_distrib_right mult.assoc)
    also have "\<dots> = (\<Sum>i<?m. \<Sum>j<n. g ! i * (weight l ! i ! j * x' ! j))"
      by (rule sum.swap)
    also have "\<dots> = (\<Sum>i<?m. g ! i * dot (weight l ! i) x')"
    proof (intro sum.cong refl)
      fix i assume "i \<in> {..<?m}"
      with wl rl have "length (weight l ! i) = n" by simp
      with dot_sum [of "weight l ! i" x'] x'
      have "dot (weight l ! i) x' = (\<Sum>j<n. weight l ! i ! j * x' ! j)" by simp
      then show "(\<Sum>j<n. g ! i * (weight l ! i ! j * x' ! j)) = g ! i * dot (weight l ! i) x'"
        by (simp add: sum_distrib_left)
    qed
    finally show ?thesis .
  qed
  have d: "dot g (bias t) = (\<Sum>i<?m. g ! i * bias t ! i)"
    using dot_sum [of g "bias t"] g by simp
  show ?thesis by (simp only: a b c d)
qed

lemma mdot_add_left:
  assumes "map length a = map length c" and "map length b = map length c"
  shows "mdot (map2 (map2 (+)) a b) c = mdot a c + mdot b c"
proof -
  from assms have la: "length a = length c" and lb: "length b = length c"
    by (auto dest: map_eq_imp_length_eq)
  have rows: "\<And>i. i < length c \<Longrightarrow> length (a ! i) = length (c ! i) \<and> length (b ! i) = length (c ! i)"
  proof -
    fix i assume i: "i < length c"
    from assms(1) have "map length a ! i = map length c ! i" by simp
    moreover from assms(2) have "map length b ! i = map length c ! i" by simp
    ultimately show "length (a ! i) = length (c ! i) \<and> length (b ! i) = length (c ! i)"
      using i la lb by simp
  qed
  have "mdot (map2 (map2 (+)) a b) c
        = (\<Sum>i<length (map2 (map2 (+)) a b). dot (map2 (map2 (+)) a b ! i) (c ! i))"
    unfolding mdot_def using la lb by (intro sum_list_map2) simp
  also have "\<dots> = (\<Sum>i<length c. dot (a ! i) (c ! i) + dot (b ! i) (c ! i))"
    using la lb rows by (intro sum.cong) (simp_all add: dot_add_left)
  also have "\<dots> = mdot a c + mdot b c"
    unfolding mdot_def using la lb
    by (simp add: sum_list_map2 sum.distrib)
  finally show ?thesis .
qed

lemma ldot_add_left:
  assumes "same_shape a c" and "same_shape b c"
  shows "ldot (add_linear a b) c = ldot a c + ldot b c"
  using assms
  by (simp add: ldot_def add_linear_def same_shape_def mdot_add_left dot_add_left)

lemma mdot_zero: "mdot (map (map (\<lambda>v. 0)) a) b = 0"
proof -
  have "map2 dot (map (map (\<lambda>v. 0 :: real)) a) b = replicate (min (length a) (length b)) 0"
    by (intro nth_equalityI) (simp_all add: dot_zeros)
  then show ?thesis by (simp add: mdot_def sum_list_replicate)
qed

lemma gdot_zero: "gdot (zero_grad r) t = 0"
  by (simp add: gdot_def ldot_def zero_grad_def zero_linear_def mdot_zero dot_zeros)


lemma linear_shape_add:
  assumes "linear_shape n m a" and "linear_shape n m b"
  shows "linear_shape n m (add_linear a b)"
proof -
  from assms have "length (weight a) = m" "length (weight b) = m"
    "\<forall>i<m. length (weight a ! i) = n" "\<forall>i<m. length (weight b ! i) = n"
    "length (bias a) = m" "length (bias b) = m"
    by (auto simp: linear_shape_def list_all_length)
  then show ?thesis
    by (auto simp: linear_shape_def list_all_length add_linear_def)
qed

lemma linear_shape_zero: "linear_shape n m l \<Longrightarrow> linear_shape n m (zero_linear l)"
  by (auto simp: linear_shape_def list_all_length zero_linear_def)

lemma linear_shape_outer:
  "length g = m \<Longrightarrow> length x = n \<Longrightarrow> linear_shape n m \<lparr>weight = outer g x, bias = g\<rparr>"
  by (auto simp: linear_shape_def list_all_length outer_def)

lemma linear_shape_same: "linear_shape n m a \<Longrightarrow> linear_shape n m b \<Longrightarrow> same_shape a b"
  by (simp add: linear_shape_rows same_shape_def)

lemma lderiv_shape:
  assumes "lderiv L x T" and "linear_shape n m T"
  shows "linear_shape n m (L y)"
proof -
  from assms(1) have W: "mderiv (\<lambda>y. weight (L y)) x (weight T)"
    and B: "vderiv (\<lambda>y. bias (L y)) x (bias T)"
    by (simp_all add: lderiv_def)
  from assms(2) have t: "length (weight T) = m" "\<forall>i<m. length (weight T ! i) = n"
    "length (bias T) = m"
    by (auto simp: linear_shape_def list_all_length)
  have "length (weight (L y)) = m" using mderiv_length [OF W, of y] t by simp
  moreover have "\<forall>i<m. length (weight (L y) ! i) = n"
  proof (intro allI impI)
    fix i assume "i < m"
    with t have i: "i < length (weight T)" and "length (weight T ! i) = n" by simp_all
    with vderiv_length [OF mderiv_row [OF W i], of y] show "length (weight (L y) ! i) = n"
      by simp
  qed
  moreover have "length (bias (L y)) = m" using vderiv_length [OF B, of y] t by simp
  ultimately show ?thesis by (auto simp: linear_shape_def list_all_length)
qed

lemma length_affine_shape: "linear_shape n m l \<Longrightarrow> length (affine l x) = m"
  by (simp add: length_affine linear_shape_def)

lemma length_transposed_apply: "length (transposed_apply n w g) = n"
  by (simp add: transposed_apply_def)

lemma length_grad_softmax:
  "length (map (\<lambda>(j, s). if j = tgt then s - 1 else s) (enumerate 0 (softmax d))) = length d"
  by (simp add: softmax_def)

lemma backward_steps_shape:
  assumes s1: "linear_shape (nc + ni + hs) hs (i2h r)"
    and s2: "linear_shape (nc + ni + hs) no (i2o r)"
    and s3: "linear_shape (hs + no) no (o2o r)"
    and c: "length c = nc"
  shows "list_all (\<lambda>s. length (fst s) = ni) steps \<Longrightarrow> length h = hs \<Longrightarrow>
         linear_shape (nc + ni + hs) hs (grad_i2h (fst (backward_steps r c steps h))) \<and>
         linear_shape (nc + ni + hs) no (grad_i2o (fst (backward_steps r c steps h))) \<and>
         linear_shape (hs + no) no (grad_o2o (fst (backward_steps r c steps h))) \<and>
         length (snd (backward_steps r c steps h)) = hs"
proof (induction steps arbitrary: h)
  case Nil
  with s1 s2 s3 show ?case by (simp add: zero_grad_def linear_shape_zero)
next
  case (Cons step rest)
  obtain inp tgt keep where step: "step = (inp, tgt, keep)" by (cases step)
  from Cons.prems step have inp: "length inp = ni"
    and rest: "list_all (\<lambda>s. length (fst s) = ni) rest"
    by simp_all
  define x where "x = c @ inp @ h"
  define h' where "h' = affine (i2h r) x"
  define out where "out = affine (i2o r) x"
  define z where "z = h' @ out"
  define y where "y = affine (o2o r) z"
  define d where "d = masked keep y"
  define B where "B = backward_steps r c rest h'"
  define gd where "gd = map (\<lambda>(j, s). if j = tgt then s - 1 else s) (enumerate 0 (softmax d))"
  define gy where "gy = masked keep gd"
  define gz where "gz = transposed_apply (length z) (weight (o2o r)) gy"
  define gh where "gh = map2 (+) (take (length h') gz) (snd B)"
  define go where "go = drop (length h') gz"
  define gx where "gx = map2 (+) (transposed_apply (length x) (weight (i2h r)) gh)
                          (transposed_apply (length x) (weight (i2o r)) go)"
  have res: "backward_steps r c (step # rest) h
        = (\<lparr>grad_i2h = add_linear (grad_i2h (fst B)) \<lparr>weight = outer gh x, bias = gh\<rparr>,
            grad_i2o = add_linear (grad_i2o (fst B)) \<lparr>weight = outer go x, bias = go\<rparr>,
            grad_o2o = add_linear (grad_o2o (fst B)) \<lparr>weight = outer gy z, bias = gy\<rparr>\<rparr>,
           drop (length c + length inp) gx)"
    by (simp add: step Let_def split_beta x_def h'_def out_def z_def y_def d_def B_def gd_def
        gy_def gz_def gh_def go_def gx_def)
  have lx: "length x = nc + ni + hs" using c inp Cons.prems(2) by (simp add: x_def)
  have lh': "length h' = hs" unfolding h'_def by (rule length_affine_shape [OF s1])
  have lout: "length out = no" unfolding out_def by (rule length_affine_shape [OF s2])
  have lz: "length z = hs + no" using lh' lout by (simp add: z_def)
  have ly: "length y = no" unfolding y_def by (rule length_affine_shape [OF s3])
  have lgy: "length gy = no"
    unfolding gy_def gd_def by (simp only: length_masked length_grad_softmax d_def ly)
  have lgz: "length gz = hs + no" by (simp add: gz_def length_transposed_apply lz)
  from Cons.IH [OF rest lh'] have ih:
    "linear_shape (nc + ni + hs) hs (grad_i2h (fst B))"
    "linear_shape (nc + ni + hs) no (grad_i2o (fst B))"
    "linear_shape (hs + no) no (grad_o2o (fst B))"
    "length (snd B) = hs"
    by (simp_all add: B_def)
  have lgh: "length gh = hs" using lgz lh' ih(4) by (simp add: gh_def)
  have lgo: "length go = no" using lgz lh' by (simp add: go_def)
  have lgx: "length gx = nc + ni + hs" by (simp add: gx_def length_transposed_apply lx)
  show ?case
    unfolding res fst_conv snd_conv rnn_grad.simps
    using linear_shape_add [OF ih(1) linear_shape_outer [OF lgh lx]]
      linear_shape_add [OF ih(2) linear_shape_outer [OF lgo lx]]
      linear_shape_add [OF ih(3) linear_shape_outer [OF lgy lz]]
      lgx c inp
    by simp
qed


lemma linear_shapeD:
  assumes "linear_shape n m l"
  shows "length (weight l) = m" and "length (bias l) = m"
    and "\<forall>i<length (weight l). length (weight l ! i) = n"
  using assms by (auto simp: linear_shape_def list_all_length)

lemma dot_zeros_right: "dot b (map (\<lambda>v. 0) a) = 0"
  using dot_commute [of b "map (\<lambda>v. 0) a"] by (simp add: dot_zeros)

lemma dot_drop_zeros:
  assumes "length a + length b \<le> length g"
  shows "dot g (map (\<lambda>v. 0) a @ map (\<lambda>v. 0) b @ h) = dot (drop (length a + length b) g) h"
proof -
  have "dot g (map (\<lambda>v. 0) a @ map (\<lambda>v. 0) b @ h)
        = dot (take (length a) g) (map (\<lambda>v. 0) a)
          + dot (drop (length a) g) (map (\<lambda>v. 0) b @ h)"
    using dot_take_drop [of "map (\<lambda>v. 0) a" g "map (\<lambda>v. 0) b @ h"] assms by simp
  also have "dot (drop (length a) g) (map (\<lambda>v. 0) b @ h)
        = dot (take (length b) (drop (length a) g)) (map (\<lambda>v. 0) b)
          + dot (drop (length b) (drop (length a) g)) h"
    using dot_take_drop [of "map (\<lambda>v. 0) b" "drop (length a) g" h] assms by simp
  finally show ?thesis by (simp add: dot_zeros_right add.commute)
qed

lemma steps_loss_DERIV:
  assumes R: "rderiv R x0 T"
    and t1: "linear_shape (nc + ni + hs) hs (grad_i2h T)"
    and t2: "linear_shape (nc + ni + hs) no (grad_i2o T)"
    and t3: "linear_shape (hs + no) no (grad_o2o T)"
    and c: "length c = nc"
  shows "list_all (\<lambda>s. length (fst s) = ni \<and> fst (snd s) < no) steps \<Longrightarrow>
         vderiv H x0 H' \<Longrightarrow> length H' = hs \<Longrightarrow>
         DERIV (\<lambda>y. steps_loss (R y) c steps (H y)) x0
           :> gdot (fst (backward_steps (R x0) c steps (H x0))) T
              + dot (snd (backward_steps (R x0) c steps (H x0))) H'"
proof (induction steps arbitrary: H H')
  case Nil
  then show ?case by (simp add: gdot_zero dot_zeros)
next
  case (Cons step rest)
  obtain inp tgt keep where step: "step = (inp, tgt, keep)" by (cases step)
  from Cons.prems(1) step have inp: "length inp = ni" and tgt: "tgt < no"
    and rest: "list_all (\<lambda>s. length (fst s) = ni \<and> fst (snd s) < no) rest"
    by simp_all
  from rest have rest': "list_all (\<lambda>s. length (fst s) = ni) rest"
    by (simp add: list_all_iff)
  note vH = Cons.prems(2) and lH' = Cons.prems(3)
  from R have L1: "lderiv (\<lambda>y. i2h (R y)) x0 (grad_i2h T)"
    and L2: "lderiv (\<lambda>y. i2o (R y)) x0 (grad_i2o T)"
    and L3: "lderiv (\<lambda>y. o2o (R y)) x0 (grad_o2o T)"
    by (simp_all add: rderiv_def)
  have s1: "linear_shape (nc + ni + hs) hs (i2h (R x0))" by (rule lderiv_shape [OF L1 t1])
  have s2: "linear_shape (nc + ni + hs) no (i2o (R x0))" by (rule lderiv_shape [OF L2 t2])
  have s3: "linear_shape (hs + no) no (o2o (R x0))" by (rule lderiv_shape [OF L3 t3])
  define X where "X = (\<lambda>y. c @ inp @ H y)"
  define X' where "X' = map (\<lambda>v. 0) c @ map (\<lambda>v. 0) inp @ H'"
  define H1 where "H1 = (\<lambda>y. affine (i2h (R y)) (X y))"
  define H1' where "H1' = affine_d (i2h (R x0)) (grad_i2h T) (X x0) X'"
  define Ou where "Ou = (\<lambda>y. affine (i2o (R y)) (X y))"
  define Ou' where "Ou' = affine_d (i2o (R x0)) (grad_i2o T) (X x0) X'"
  define Z where "Z = (\<lambda>y. H1 y @ Ou y)"
  define Z' where "Z' = H1' @ Ou'"
  define Y where "Y = (\<lambda>y. affine (o2o (R y)) (Z y))"
  define Y' where "Y' = affine_d (o2o (R x0)) (grad_o2o T) (Z x0) Z'"
  define D where "D = (\<lambda>y. masked keep (Y y))"
  define D' where "D' = masked keep Y'"
  have vX: "vderiv X x0 X'"
    unfolding X_def X'_def by (intro vderiv_append vderiv_const vH)
  have lX': "length X' = nc + ni + hs" using c inp lH' by (simp add: X'_def)
  have lX: "length (X x0) = nc + ni + hs" using vderiv_length [OF vX, of x0] lX' by simp
  have vH1: "vderiv H1 x0 H1'"
    unfolding H1_def H1'_def using linear_shapeD [OF t1] lX'
    by (intro affine_vderiv [OF L1 _ _ vX]) simp_all
  have lH1': "length H1' = hs" using linear_shapeD [OF t1] by (simp add: H1'_def affine_d_def)
  have vOu: "vderiv Ou x0 Ou'"
    unfolding Ou_def Ou'_def using linear_shapeD [OF t2] lX'
    by (intro affine_vderiv [OF L2 _ _ vX]) simp_all
  have lOu': "length Ou' = no" using linear_shapeD [OF t2] by (simp add: Ou'_def affine_d_def)
  have vZ: "vderiv Z x0 Z'" unfolding Z_def Z'_def by (intro vderiv_append vH1 vOu)
  have lZ': "length Z' = hs + no" using lH1' lOu' by (simp add: Z'_def)
  have lZ: "length (Z x0) = hs + no" using vderiv_length [OF vZ, of x0] lZ' by simp
  have vY: "vderiv Y x0 Y'"
    unfolding Y_def Y'_def using linear_shapeD [OF t3] lZ'
    by (intro affine_vderiv [OF L3 _ _ vZ]) simp_all
  have lY': "length Y' = no" using linear_shapeD [OF t3] by (simp add: Y'_def affine_d_def)
  have vD: "vderiv D x0 D'" unfolding D_def D'_def by (intro masked_vderiv vY)
  have lD': "length D' = no" using lY' by (simp add: D'_def length_masked)
  have lD: "length (D x0) = no" using vderiv_length [OF vD, of x0] lD' by simp
  have lH1: "length (H1 x0) = hs" using vderiv_length [OF vH1, of x0] lH1' by simp
  define B where "B = backward_steps (R x0) c rest (H1 x0)"
  define gd where "gd = map (\<lambda>(j, s). if j = tgt then s - 1 else s) (enumerate 0 (softmax (D x0)))"
  define gy where "gy = masked keep gd"
  define gz where "gz = transposed_apply (length (Z x0)) (weight (o2o (R x0))) gy"
  define gh where "gh = map2 (+) (take (length (H1 x0)) gz) (snd B)"
  define go where "go = drop (length (H1 x0)) gz"
  define th where "th = transposed_apply (length (X x0)) (weight (i2h (R x0))) gh"
  define to where "to = transposed_apply (length (X x0)) (weight (i2o (R x0))) go"
  define gx where "gx = map2 (+) th to"
  have res: "backward_steps (R x0) c (step # rest) (H x0)
        = (\<lparr>grad_i2h = add_linear (grad_i2h (fst B)) \<lparr>weight = outer gh (X x0), bias = gh\<rparr>,
            grad_i2o = add_linear (grad_i2o (fst B)) \<lparr>weight = outer go (X x0), bias = go\<rparr>,
            grad_o2o = add_linear (grad_o2o (fst B)) \<lparr>weight = outer gy (Z x0), bias = gy\<rparr>\<rparr>,
           drop (length c + length inp) gx)"
    by (simp add: step Let_def split_beta X_def H1_def Ou_def Z_def Y_def D_def B_def gd_def
        gy_def gz_def gh_def go_def gx_def th_def to_def)
  have e: "\<And>y. steps_loss (R y) c (step # rest) (H y)
             = - (D y ! tgt - ln (sum_list (map exp (D y)))) + steps_loss (R y) c rest (H1 y)"
    by (simp add: step Let_def X_def H1_def Ou_def Z_def Y_def D_def)
  from tgt lD' have tgt': "tgt < length D'" by simp
  have d1: "DERIV (\<lambda>y. - (D y ! tgt - ln (sum_list (map exp (D y))))) x0 :> dot gd D'"
    unfolding gd_def by (rule loss_DERIV [OF vD tgt'])
  have d2: "DERIV (\<lambda>y. steps_loss (R y) c rest (H1 y)) x0 :> gdot (fst B) T + dot (snd B) H1'"
    unfolding B_def by (rule Cons.IH [OF rest vH1 lH1'])
  have d: "DERIV (\<lambda>y. steps_loss (R y) c (step # rest) (H y)) x0
           :> dot gd D' + (gdot (fst B) T + dot (snd B) H1')"
    unfolding e by (rule DERIV_add [OF d1 d2])
  from backward_steps_shape [OF s1 s2 s3 c rest' lH1] have b:
    "linear_shape (nc + ni + hs) hs (grad_i2h (fst B))"
    "linear_shape (nc + ni + hs) no (grad_i2o (fst B))"
    "linear_shape (hs + no) no (grad_o2o (fst B))"
    "length (snd B) = hs"
    by (simp_all add: B_def)
  have lgd: "length gd = no" unfolding gd_def by (simp only: length_grad_softmax lD)
  have lgy: "length gy = no" by (simp add: gy_def length_masked lgd)
  have lgz: "length gz = hs + no" by (simp add: gz_def length_transposed_apply lZ)
  have lgh: "length gh = hs" using lgz lH1 b(4) by (simp add: gh_def)
  have lgo: "length go = no" using lgz lH1 by (simp add: go_def)
  have lth: "length th = nc + ni + hs" by (simp add: th_def length_transposed_apply lX)
  have lto: "length to = nc + ni + hs" by (simp add: to_def length_transposed_apply lX)
  have a1: "dot gd D' = dot gy Y'"
    unfolding D'_def gy_def using lgd lY' by (intro dot_masked) simp
  have a2: "dot gy Y' = mdot (outer gy (Z x0)) (weight (grad_o2o T)) + dot gz Z'
                        + dot gy (bias (grad_o2o T))"
    unfolding Y'_def gz_def lZ
    using linear_shapeD [OF t3] linear_shapeD [OF s3] lgy lZ'
    by (intro dot_affine_d) simp_all
  have a3: "dot gz Z' = dot (take (length (H1 x0)) gz) H1' + dot go Ou'"
    unfolding Z'_def go_def using dot_take_drop [of H1' gz Ou'] lgz lH1' lH1 by simp
  have a4: "dot gh H1' = dot (take (length (H1 x0)) gz) H1' + dot (snd B) H1'"
    unfolding gh_def using lgz lH1 lH1' b(4) by (intro dot_add_left) simp_all
  have a5: "dot gh H1' = mdot (outer gh (X x0)) (weight (grad_i2h T)) + dot th X'
                         + dot gh (bias (grad_i2h T))"
    unfolding H1'_def th_def lX
    using linear_shapeD [OF t1] linear_shapeD [OF s1] lgh lX'
    by (intro dot_affine_d) simp_all
  have a6: "dot go Ou' = mdot (outer go (X x0)) (weight (grad_i2o T)) + dot to X'
                         + dot go (bias (grad_i2o T))"
    unfolding Ou'_def to_def lX
    using linear_shapeD [OF t2] linear_shapeD [OF s2] lgo lX'
    by (intro dot_affine_d) simp_all
  have a7: "dot gx X' = dot th X' + dot to X'"
    unfolding gx_def using lth lto lX' by (intro dot_add_left) simp_all
  have a8: "dot gx X' = dot (drop (length c + length inp) gx) H'"
    unfolding X'_def using lth lto c inp
    by (intro dot_drop_zeros) (simp add: gx_def)
  have g1: "ldot (add_linear (grad_i2h (fst B)) \<lparr>weight = outer gh (X x0), bias = gh\<rparr>) (grad_i2h T)
            = ldot (grad_i2h (fst B)) (grad_i2h T)
              + (mdot (outer gh (X x0)) (weight (grad_i2h T)) + dot gh (bias (grad_i2h T)))"
    using ldot_add_left [OF linear_shape_same [OF b(1) t1]
        linear_shape_same [OF linear_shape_outer [OF lgh lX] t1]]
    by (simp add: ldot_def)
  have g2: "ldot (add_linear (grad_i2o (fst B)) \<lparr>weight = outer go (X x0), bias = go\<rparr>) (grad_i2o T)
            = ldot (grad_i2o (fst B)) (grad_i2o T)
              + (mdot (outer go (X x0)) (weight (grad_i2o T)) + dot go (bias (grad_i2o T)))"
    using ldot_add_left [OF linear_shape_same [OF b(2) t2]
        linear_shape_same [OF linear_shape_outer [OF lgo lX] t2]]
    by (simp add: ldot_def)
  have g3: "ldot (add_linear (grad_o2o (fst B)) \<lparr>weight = outer gy (Z x0), bias = gy\<rparr>) (grad_o2o T)
            = ldot (grad_o2o (fst B)) (grad_o2o T)
              + (mdot (outer gy (Z x0)) (weight (grad_o2o T)) + dot gy (bias (grad_o2o T)))"
    using ldot_add_left [OF linear_shape_same [OF b(3) t3]
        linear_shape_same [OF linear_shape_outer [OF lgy lZ] t3]]
    by (simp add: ldot_def)
  have "gdot (fst (backward_steps (R x0) c (step # rest) (H x0))) T
          + dot (snd (backward_steps (R x0) c (step # rest) (H x0))) H'
        = dot gd D' + (gdot (fst B) T + dot (snd B) H1')"
    unfolding res fst_conv snd_conv gdot_def rnn_grad.simps g1 g2 g3
    using a1 a2 a3 a4 a5 a6 a7 a8 by (simp add: gdot_def)
  with d show ?case by simp
qed


lemma linear_apply_affine:
  assumes "linear_shape n m l" and "length x = n"
  shows "linear_apply l [x] = Inr [affine l x]"
  using assms by (simp add: linear_apply_def linear_shape_def affine_def)

lemma apply_mask_masked: "apply_mask m [y] = [masked (m 0) y]"
  by (simp add: apply_mask_def masked_def)

lemma forward_row:
  assumes s1: "linear_shape (nc + ni + hs) hs (i2h r)"
    and s2: "linear_shape (nc + ni + hs) no (i2o r)"
    and s3: "linear_shape (hs + no) no (o2o r)"
    and c: "length c = nc" and x: "length x = ni" and h: "length h = hs"
  shows "forward r g [c] [x] [h]
         = Inr (log_softmax [masked (g 0 0)
                  (affine (o2o r) (affine (i2h r) (c @ x @ h) @ affine (i2o r) (c @ x @ h)))],
                [affine (i2h r) (c @ x @ h)], (\<lambda>k. g (Suc k)))"
proof -
  have l: "length (c @ x @ h) = nc + ni + hs" using c x h by simp
  have z: "length (affine (i2h r) (c @ x @ h) @ affine (i2o r) (c @ x @ h)) = hs + no"
    by (simp add: length_affine_shape [OF s1] length_affine_shape [OF s2])
  show ?thesis
    by (simp add: forward_def linear_apply_affine [OF s1 l] linear_apply_affine [OF s2 l]
        linear_apply_affine [OF s3 z] dropout_def apply_mask_masked)
qed

lemma forward_all_steps:
  assumes s1: "linear_shape (nc + ni + hs) hs (i2h r)"
    and s2: "linear_shape (nc + ni + hs) no (i2o r)"
    and s3: "linear_shape (hs + no) no (o2o r)"
    and c: "length c = nc"
  shows "list_all (shape2 1 ni) xs \<Longrightarrow> length h = hs \<Longrightarrow> length xs \<le> length ts \<Longrightarrow>
         list_all (\<lambda>t. 0 \<le> t \<and> t < int no) ts \<Longrightarrow>
         \<exists>outs h' g'. forward_all r [c] xs ([h], g) = Inr (outs, h', g') \<and>
            sum_list (map (\<lambda>i. - (outs ! i ! 0 ! nat (ts ! i))) [0..<length xs])
            = steps_loss r c (map (\<lambda>i. (xs ! i ! 0, nat (ts ! i), g i 0)) [0..<length xs]) h"
proof (induction xs arbitrary: h g ts)
  case Nil
  then show ?case by simp
next
  case (Cons x xs)
  from Cons.prems(1) have "shape2 1 ni x" and xs: "list_all (shape2 1 ni) xs" by simp_all
  then obtain xr where xr: "x = [xr]" "length xr = ni"
    unfolding shape2_one by blast
  from Cons.prems(3) obtain t ts' where ts: "ts = t # ts'" by (cases ts) auto
  with Cons.prems(3,4) have t: "0 \<le> t" "t < int no" and lts: "length xs \<le> length ts'"
    and ts': "list_all (\<lambda>t. 0 \<le> t \<and> t < int no) ts'"
    by simp_all
  define X where "X = c @ xr @ h"
  define h1 where "h1 = affine (i2h r) X"
  define d where "d = masked (g 0 0) (affine (o2o r) (h1 @ affine (i2o r) X))"
  have f: "forward r g [c] x [h] = Inr (log_softmax [d], [h1], (\<lambda>k. g (Suc k)))"
    unfolding xr(1) d_def h1_def X_def by (rule forward_row [OF s1 s2 s3 c xr(2) Cons.prems(2)])
  have lh1: "length h1 = hs" unfolding h1_def by (rule length_affine_shape [OF s1])
  have ld: "length d = no"
    by (simp add: d_def length_masked length_affine_shape [OF s3])
  from Cons.IH [OF xs lh1 lts ts', of "\<lambda>k. g (Suc k)"] obtain outs h' g' where
    fa: "forward_all r [c] xs ([h1], (\<lambda>k. g (Suc k))) = Inr (outs, h', g')"
    and sm: "sum_list (map (\<lambda>i. - (outs ! i ! 0 ! nat (ts' ! i))) [0..<length xs])
             = steps_loss r c (map (\<lambda>i. (xs ! i ! 0, nat (ts' ! i), g (Suc i) 0)) [0..<length xs]) h1"
    by blast
  have fa': "forward_all r [c] (x # xs) ([h], g) = Inr (log_softmax [d] # outs, h', g')"
    using f fa by simp
  from t ld have tn: "nat t < length d" by simp
  have first: "- (log_softmax [d] ! 0 ! nat t) = - (d ! nat t - ln (sum_list (map exp d)))"
    using tn by (simp add: log_softmax_def)
  have "sum_list (map (\<lambda>i. - ((log_softmax [d] # outs) ! i ! 0 ! nat (ts ! i)))
                  [0..<length (x # xs)])
        = - (log_softmax [d] ! 0 ! nat t)
          + sum_list (map (\<lambda>i. - (outs ! i ! 0 ! nat (ts' ! i))) [0..<length xs])"
    by (simp add: ts map_upt_Suc del: upt_Suc)
  also have "\<dots> = - (d ! nat t - ln (sum_list (map exp d)))
                     + steps_loss r c
                         (map (\<lambda>i. (xs ! i ! 0, nat (ts' ! i), g (Suc i) 0)) [0..<length xs]) h1"
    by (simp only: first sm)
  also have "\<dots> = steps_loss r c
                     (map (\<lambda>i. ((x # xs) ! i ! 0, nat (ts ! i), g i 0)) [0..<length (x # xs)]) h"
    by (simp add: ts xr(1) map_upt_Suc Let_def X_def h1_def d_def del: upt_Suc)
  finally show ?case using fa' by blast
qed


lemma RNN_shapes:
  assumes "RNN d ni hs no r"
  shows "linear_shape (n_categories d + ni + hs) hs (i2h r)"
    and "linear_shape (n_categories d + ni + hs) no (i2o r)"
    and "linear_shape (hs + no) no (o2o r)" and "hidden_size r = hs"
  using assms by (simp_all add: RNN_def)

lemma summed_loss_steps:
  assumes r: "RNN d ni hs no r"
    and c: "shape2 1 (n_categories d) category_tensor"
    and L: "input_line_tensor \<noteq> []"
    and i: "list_all (shape2 1 ni) input_line_tensor"
    and t: "length input_line_tensor \<le> length target_line_tensor"
    and tr: "list_all (\<lambda>c. 0 \<le> c \<and> c < int no) target_line_tensor"
  shows "summed_loss r g category_tensor input_line_tensor target_line_tensor
         = steps_loss r (category_tensor ! 0)
             (map (\<lambda>i. (input_line_tensor ! i ! 0, nat (target_line_tensor ! i), g i 0))
                [0..<length input_line_tensor])
             (replicate hs 0)"
proof -
  let ?L = "length input_line_tensor"
  from c obtain cr where cr: "category_tensor = [cr]" "length cr = n_categories d"
    unfolding shape2_one by blast
  have ih: "initHidden r = [replicate hs 0]"
    using RNN_shapes(4) [OF r] by (simp add: initHidden_def zeros2_def zeros1_def)
  from train_loop_run [OF r c L i t tr, of g] obtain outs hidden' g' ls where
    fa: "forward_all r category_tensor input_line_tensor (initHidden r, g) = Inr (outs, hidden', g')"
    and ll: "length ls = ?L"
    and lv: "\<forall>i<?L. ls ! i = - (outs ! i ! 0 ! nat (target_line_tensor ! i))"
    and tl: "train_loop r category_tensor input_line_tensor (map (\<lambda>c. [c]) target_line_tensor)
               [0..<?L] (None, initHidden r, IntZero, g)
             = Inr (Some (last outs), hidden', LossTensor (sum_list ls), g')"
    by blast
  from tl have sl: "summed_loss r g category_tensor input_line_tensor target_line_tensor = sum_list ls"
    by (simp add: summed_loss_def)
  have "length (replicate hs (0::real)) = hs" by simp
  from forward_all_steps [OF RNN_shapes(1,2,3) [OF r] cr(2) i this t tr, of g]
  obtain outs' h'' g'' where
    fa': "forward_all r [cr] input_line_tensor ([replicate hs 0], g) = Inr (outs', h'', g'')"
    and sm: "sum_list (map (\<lambda>i. - (outs' ! i ! 0 ! nat (target_line_tensor ! i))) [0..<?L])
             = steps_loss r cr
                 (map (\<lambda>i. (input_line_tensor ! i ! 0, nat (target_line_tensor ! i), g i 0)) [0..<?L])
                 (replicate hs 0)"
    by blast
  from fa fa' have o: "outs' = outs" by (simp add: cr(1) ih)
  have "ls = map (\<lambda>i. - (outs ! i ! 0 ! nat (target_line_tensor ! i))) [0..<?L]"
    using ll lv by (intro nth_equalityI) simp_all
  with sm o have "sum_list ls = steps_loss r cr
                 (map (\<lambda>i. (input_line_tensor ! i ! 0, nat (target_line_tensor ! i), g i 0)) [0..<?L])
                 (replicate hs 0)"
    by simp
  with sl show ?thesis by (simp add: cr(1))
qed


lemma loss_backward_steps:
  assumes "hidden_size r = hs" and "length input_line_tensor \<le> length target_line_tensor"
  shows "loss_backward r g category_tensor input_line_tensor (map (\<lambda>c. [c]) target_line_tensor)
         = fst (backward_steps r (category_tensor ! 0)
                  (map (\<lambda>i. (input_line_tensor ! i ! 0, nat (target_line_tensor ! i), g i 0))
                     [0..<length input_line_tensor])
                  (replicate hs 0))"
proof -
  have "map (\<lambda>i. (input_line_tensor ! i ! 0,
                    nat (map (\<lambda>c. [c]) target_line_tensor ! i ! 0), g i 0))
          [0..<length input_line_tensor]
        = map (\<lambda>i. (input_line_tensor ! i ! 0, nat (target_line_tensor ! i), g i 0))
            [0..<length input_line_tensor]"
    using assms(2) by (intro map_cong refl) simp
  moreover have "initHidden r ! 0 = replicate hs 0"
    using assms(1) by (simp add: initHidden_def zeros2_def zeros1_def)
  ultimately show ?thesis by (simp only: loss_backward_def)
qed

lemma steps_shapes:
  assumes "list_all (shape2 1 ni) input_line_tensor"
    and "length input_line_tensor \<le> length target_line_tensor"
    and "list_all (\<lambda>c. 0 \<le> c \<and> c < int no) target_line_tensor"
  shows "list_all (\<lambda>s. length (fst s) = ni \<and> fst (snd s) < no)
           (map (\<lambda>i. (input_line_tensor ! i ! 0, nat (target_line_tensor ! i), g i 0))
              [0..<length input_line_tensor])"
proof -
  have "\<And>k. k < length input_line_tensor \<Longrightarrow>
          length (input_line_tensor ! k ! 0) = ni \<and> nat (target_line_tensor ! k) < no"
  proof -
    fix k assume k: "k < length input_line_tensor"
    with assms(1) have "shape2 1 ni (input_line_tensor ! k)" by (simp add: list_all_length)
    then have "length (input_line_tensor ! k ! 0) = ni" unfolding shape2_one by auto
    moreover from k assms(2,3) have "0 \<le> target_line_tensor ! k \<and> target_line_tensor ! k < int no"
      by (simp add: list_all_length)
    ultimately show "length (input_line_tensor ! k ! 0) = ni \<and> nat (target_line_tensor ! k) < no"
      by auto
  qed
  then show ?thesis by (simp add: list_all_iff)
qed

lemma loss_backward_shape:
  assumes r: "RNN d ni hs no r"
    and c: "shape2 1 (n_categories d) category_tensor"
    and i: "list_all (shape2 1 ni) input_line_tensor"
    and t: "length input_line_tensor \<le> length target_line_tensor"
    and tr: "list_all (\<lambda>c. 0 \<le> c \<and> c < int no) target_line_tensor"
  shows "grad_shape r
           (loss_backward r g category_tensor input_line_tensor (map (\<lambda>c. [c]) target_line_tensor))"
    and "linear_shape (n_categories d + ni + hs) hs
           (grad_i2h (loss_backward r g category_tensor input_line_tensor
                        (map (\<lambda>c. [c]) target_line_tensor)))"
    and "linear_shape (n_categories d + ni + hs) no
           (grad_i2o (loss_backward r g category_tensor input_line_tensor
                        (map (\<lambda>c. [c]) target_line_tensor)))"
    and "linear_shape (hs + no) no
           (grad_o2o (loss_backward r g category_tensor input_line_tensor
                        (map (\<lambda>c. [c]) target_line_tensor)))"
proof -
  let ?G = "loss_backward r g category_tensor input_line_tensor (map (\<lambda>c. [c]) target_line_tensor)"
  from c have lc: "length (category_tensor ! 0) = n_categories d" unfolding shape2_one by auto
  have st: "list_all (\<lambda>s. length (fst s) = ni)
           (map (\<lambda>i. (input_line_tensor ! i ! 0, nat (target_line_tensor ! i), g i 0))
              [0..<length input_line_tensor])"
    using steps_shapes [OF i t tr, of g] by (simp add: list_all_iff)
  have "length (replicate hs (0::real)) = hs" by simp
  from backward_steps_shape [OF RNN_shapes(1,2,3) [OF r] lc st this]
  show g1: "linear_shape (n_categories d + ni + hs) hs (grad_i2h ?G)"
    and g2: "linear_shape (n_categories d + ni + hs) no (grad_i2o ?G)"
    and g3: "linear_shape (hs + no) no (grad_o2o ?G)"
    by (simp_all add: loss_backward_steps [OF RNN_shapes(4) [OF r] t])
  show "grad_shape r ?G"
    unfolding grad_shape_def
    using linear_shape_same [OF RNN_shapes(1) [OF r] g1] linear_shape_same [OF RNN_shapes(2) [OF r] g2]
      linear_shape_same [OF RNN_shapes(3) [OF r] g3]
    by simp
qed

lemma dot_zero_right: "dot x (replicate n 0) = 0"
  using dot_zeros_right [of x "replicate n (0::real)"] by simp

lemma loss_path_DERIV:
  assumes r: "RNN d ni hs no r"
    and c: "shape2 1 (n_categories d) category_tensor"
    and L: "input_line_tensor \<noteq> []"
    and i: "list_all (shape2 1 ni) input_line_tensor"
    and t: "length input_line_tensor \<le> length target_line_tensor"
    and tr: "list_all (\<lambda>c. 0 \<le> c \<and> c < int no) target_line_tensor"
    and R: "rderiv R x0 T" and R0: "R x0 = r" and hsR: "\<And>y. hidden_size (R y) = hs"
    and t1: "linear_shape (n_categories d + ni + hs) hs (grad_i2h T)"
    and t2: "linear_shape (n_categories d + ni + hs) no (grad_i2o T)"
    and t3: "linear_shape (hs + no) no (grad_o2o T)"
  shows "DERIV (\<lambda>y. summed_loss (R y) g category_tensor input_line_tensor target_line_tensor) x0
         :> gdot (loss_backward r g category_tensor input_line_tensor
                    (map (\<lambda>c. [c]) target_line_tensor)) T"
proof -
  let ?steps = "map (\<lambda>i. (input_line_tensor ! i ! 0, nat (target_line_tensor ! i), g i 0))
                  [0..<length input_line_tensor]"
  let ?c = "category_tensor ! 0"
  from c have lc: "length ?c = n_categories d" unfolding shape2_one by auto
  from R have L1: "lderiv (\<lambda>y. i2h (R y)) x0 (grad_i2h T)"
    and L2: "lderiv (\<lambda>y. i2o (R y)) x0 (grad_i2o T)"
    and L3: "lderiv (\<lambda>y. o2o (R y)) x0 (grad_o2o T)"
    by (simp_all add: rderiv_def)
  have Ry: "\<And>y. RNN d ni hs no (R y)"
    unfolding RNN_def using lderiv_shape [OF L1 t1] lderiv_shape [OF L2 t2]
      lderiv_shape [OF L3 t3] hsR by simp
  have e: "\<And>y. summed_loss (R y) g category_tensor input_line_tensor target_line_tensor
                 = steps_loss (R y) ?c ?steps (replicate hs 0)"
    by (rule summed_loss_steps [OF Ry c L i t tr])
  have vH: "vderiv (\<lambda>y. replicate hs (0::real)) x0 (map (\<lambda>v. 0) (replicate hs (0::real)))"
    by (rule vderiv_const)
  have lH: "length (map (\<lambda>v. 0::real) (replicate hs (0::real))) = hs" by simp
  from steps_loss_DERIV [OF R t1 t2 t3 lc steps_shapes [OF i t tr] vH lH, of g]
  have "DERIV (\<lambda>y. steps_loss (R y) ?c ?steps (replicate hs 0)) x0
        :> gdot (fst (backward_steps r ?c ?steps (replicate hs 0))) T"
    by (simp add: R0 dot_zero_right)
  then show ?thesis
    by (simp add: e loss_backward_steps [OF RNN_shapes(4) [OF r] t])
qed


lemma vderiv_update: "vderiv (\<lambda>y. v[j := y]) x ((map (\<lambda>v. 0) v)[j := 1])"
proof (rule vderivI [where n = "length v"])
  fix i assume i: "i < length v"
  show "DERIV (\<lambda>y. v[j := y] ! i) x :> (map (\<lambda>v. 0) v)[j := 1] ! i"
    using i by (cases "i = j") (simp_all add: nth_list_update)
qed simp_all

lemma mderiv_const: "mderiv (\<lambda>y. w) x (map (map (\<lambda>v. 0)) w)"
  by (simp add: mderiv_def vderiv_const)

lemma mderiv_update:
  "mderiv (\<lambda>y. w[i := (w ! i)[j := y]]) x
     ((map (map (\<lambda>v. 0)) w)[i := (map (\<lambda>v. 0) (w ! i))[j := 1]])"
proof -
  have "\<And>k. k < length w \<Longrightarrow>
          vderiv (\<lambda>y. w[i := (w ! i)[j := y]] ! k) x
            ((map (map (\<lambda>v. 0)) w)[i := (map (\<lambda>v. 0) (w ! i))[j := 1]] ! k)"
  proof -
    fix k assume k: "k < length w"
    show "vderiv (\<lambda>y. w[i := (w ! i)[j := y]] ! k) x
            ((map (map (\<lambda>v. 0)) w)[i := (map (\<lambda>v. 0) (w ! i))[j := 1]] ! k)"
    proof (cases "k = i")
      case True
      with k show ?thesis by (simp add: vderiv_update)
    next
      case False
      with k show ?thesis by (simp add: vderiv_const)
    qed
  qed
  then show ?thesis by (simp add: mderiv_def)
qed

lemma lderiv_const: "lderiv (\<lambda>y. l) x (zero_linear l)"
  by (simp add: lderiv_def zero_linear_def mderiv_const vderiv_const)

lemma lderiv_set_weight:
  "i < length (weight l) \<Longrightarrow>
   lderiv (\<lambda>y. set_weight l i j y) x (set_weight (zero_linear l) i j 1)"
  using mderiv_update [of "weight l" i j x]
  by (simp add: lderiv_def set_weight_def zero_linear_def vderiv_const)

lemma lderiv_set_bias: "lderiv (\<lambda>y. set_bias l i y) x (set_bias (zero_linear l) i 1)"
  using vderiv_update [of "bias l" i x]
  by (simp add: lderiv_def set_bias_def zero_linear_def mderiv_const)

lemma linear_shape_update:
  assumes "linear_shape n m l"
  shows "linear_shape n m (set_weight l i j x)" and "linear_shape n m (set_bias l i x)"
proof -
  from assms have a: "length (weight l) = m" "\<forall>k<m. length (weight l ! k) = n"
    "length (bias l) = m"
    by (auto simp: linear_shape_def list_all_length)
  have "\<forall>k<m. length ((weight l)[i := (weight l ! i)[j := x]] ! k) = n"
  proof (intro allI impI)
    fix k assume "k < m"
    with a show "length ((weight l)[i := (weight l ! i)[j := x]] ! k) = n"
      by (cases "k = i") simp_all
  qed
  with a show "linear_shape n m (set_weight l i j x)"
    by (simp add: linear_shape_def list_all_length set_weight_def)
  from a show "linear_shape n m (set_bias l i x)"
    by (simp add: linear_shape_def list_all_length set_bias_def)
qed

lemma set_weight_same: "set_weight l i j (weight l ! i ! j) = l"
  by (simp add: set_weight_def)

lemma set_bias_same: "set_bias l i (bias l ! i) = l"
  by (simp add: set_bias_def)

lemma dot_unit:
  assumes "length a = length v" and "j < length v"
  shows "dot a ((map (\<lambda>v. 0) v)[j := 1]) = a ! j"
proof -
  have "dot a ((map (\<lambda>v. 0) v)[j := 1]) = (\<Sum>i<length a. a ! i * (map (\<lambda>v. 0) v)[j := 1] ! i)"
    using dot_sum [of a "(map (\<lambda>v. 0) v)[j := 1]"] assms by simp
  also have "\<dots> = (\<Sum>i<length a. if i = j then a ! i else 0)"
    using assms by (intro sum.cong refl) (simp add: nth_list_update)
  also have "\<dots> = a ! j" using assms by simp
  finally show ?thesis .
qed

lemma mdot_zeros_right: "mdot a (map (map (\<lambda>v. 0)) b) = 0"
proof -
  have "map2 dot a (map (map (\<lambda>v. 0 :: real)) b) = replicate (min (length a) (length b)) 0"
    by (intro nth_equalityI) (simp_all add: dot_zeros_right)
  then show ?thesis by (simp add: mdot_def sum_list_replicate)
qed

lemma mdot_unit:
  assumes "map length a = map length w" and "i < length w" and "j < length (w ! i)"
  shows "mdot a ((map (map (\<lambda>v. 0)) w)[i := (map (\<lambda>v. 0) (w ! i))[j := 1]]) = a ! i ! j"
proof -
  let ?u = "(map (map (\<lambda>v. 0 :: real)) w)[i := (map (\<lambda>v. 0) (w ! i))[j := 1]]"
  from assms(1) have la: "length a = length w" by (auto dest: map_eq_imp_length_eq)
  from assms(1) have "map length a ! i = map length w ! i" by simp
  with assms(2) la have li: "length (a ! i) = length (w ! i)" by simp
  have "mdot a ?u = (\<Sum>k<length a. dot (a ! k) (?u ! k))"
    unfolding mdot_def using la by (intro sum_list_map2) simp
  also have "\<dots> = (\<Sum>k<length a. if k = i then a ! i ! j else 0)"
  proof (intro sum.cong refl)
    fix k assume "k \<in> {..<length a}"
    with la have k: "k < length w" by simp
    show "dot (a ! k) (?u ! k) = (if k = i then a ! i ! j else 0)"
    proof (cases "k = i")
      case True
      with k dot_unit [OF li assms(3)] show ?thesis by simp
    next
      case False
      with k show ?thesis by (simp add: dot_zeros_right)
    qed
  qed
  also have "\<dots> = a ! i ! j" using assms(2) la by simp
  finally show ?thesis .
qed

lemma ldot_zero_right: "ldot a (zero_linear l) = 0"
  by (simp add: ldot_def zero_linear_def mdot_zeros_right dot_zeros_right)

lemma ldot_set_weight:
  assumes "same_shape l a" and "i < length (weight l)" and "j < length (weight l ! i)"
  shows "ldot a (set_weight (zero_linear l) i j 1) = weight a ! i ! j"
proof -
  from assms(1) have "map length (weight a) = map length (weight l)"
    by (simp add: same_shape_def)
  from mdot_unit [OF this assms(2,3)] assms(2) show ?thesis
    by (simp add: ldot_def set_weight_def zero_linear_def dot_zeros_right)
qed

lemma ldot_set_bias:
  assumes "same_shape l a" and "i < length (bias l)"
  shows "ldot a (set_bias (zero_linear l) i 1) = bias a ! i"
proof -
  from assms(1) have "length (bias a) = length (bias l)" by (simp add: same_shape_def)
  from dot_unit [OF this assms(2)] show ?thesis
    by (simp add: ldot_def set_bias_def zero_linear_def mdot_zeros_right)
qed

lemma loss_backward_is_gradient:
  assumes r: "RNN d ni hs no r"
    and c: "shape2 1 (n_categories d) category_tensor"
    and L: "input_line_tensor \<noteq> []"
    and i: "list_all (shape2 1 ni) input_line_tensor"
    and t: "length input_line_tensor \<le> length target_line_tensor"
    and tr: "list_all (\<lambda>c. 0 \<le> c \<and> c < int no) target_line_tensor"
  shows "is_gradient (\<lambda>r'. summed_loss r' g category_tensor input_line_tensor target_line_tensor) r
           (loss_backward r g category_tensor input_line_tensor
              (map (\<lambda>c. [c]) target_line_tensor))"
proof -
  let ?G = "loss_backward r g category_tensor input_line_tensor (map (\<lambda>c. [c]) target_line_tensor)"
  let ?f = "\<lambda>r'. summed_loss r' g category_tensor input_line_tensor target_line_tensor"
  note sh = RNN_shapes [OF r]
  from loss_backward_shape(1) [OF r c i t tr, of g] have gs:
    "same_shape (i2h r) (grad_i2h ?G)" "same_shape (i2o r) (grad_i2o ?G)"
    "same_shape (o2o r) (grad_o2o ?G)"
    by (simp_all add: grad_shape_def)
  note z1 = linear_shape_zero [OF sh(1)] and z2 = linear_shape_zero [OF sh(2)]
    and z3 = linear_shape_zero [OF sh(3)]
  have path: "\<And>R x0 T. rderiv R x0 T \<Longrightarrow> R x0 = r \<Longrightarrow> (\<And>y. hidden_size (R y) = hs) \<Longrightarrow>
      linear_shape (n_categories d + ni + hs) hs (grad_i2h T) \<Longrightarrow>
      linear_shape (n_categories d + ni + hs) no (grad_i2o T) \<Longrightarrow>
      linear_shape (hs + no) no (grad_o2o T) \<Longrightarrow>
      DERIV (\<lambda>y. ?f (R y)) x0 :> gdot ?G T"
    by (rule loss_path_DERIV [OF r c L i t tr])
  have h1: "layer_gradient (\<lambda>l. ?f (r\<lparr>i2h := l\<rparr>)) (i2h r) (grad_i2h ?G)"
    unfolding layer_gradient_def
  proof (intro conjI allI impI)
    fix k j assume k: "k < length (weight (i2h r))" and j: "j < length (weight (i2h r) ! k)"
    let ?T = "\<lparr>grad_i2h = set_weight (zero_linear (i2h r)) k j 1,
               grad_i2o = zero_linear (i2o r), grad_o2o = zero_linear (o2o r)\<rparr>"
    have "DERIV (\<lambda>y. ?f (r\<lparr>i2h := set_weight (i2h r) k j y\<rparr>)) (weight (i2h r) ! k ! j)
          :> gdot ?G ?T"
      using sh(4) z1 z2 z3
      by (intro path)
        (simp_all add: rderiv_def lderiv_set_weight [OF k] lderiv_const set_weight_same
          linear_shape_update)
    moreover have "gdot ?G ?T = weight (grad_i2h ?G) ! k ! j"
      by (simp add: gdot_def ldot_zero_right ldot_set_weight [OF gs(1) k j])
    ultimately show "DERIV (\<lambda>y. ?f (r\<lparr>i2h := set_weight (i2h r) k j y\<rparr>)) (weight (i2h r) ! k ! j)
          :> weight (grad_i2h ?G) ! k ! j"
      by simp
  next
    fix k assume k: "k < length (bias (i2h r))"
    let ?T = "\<lparr>grad_i2h = set_bias (zero_linear (i2h r)) k 1,
               grad_i2o = zero_linear (i2o r), grad_o2o = zero_linear (o2o r)\<rparr>"
    have "DERIV (\<lambda>y. ?f (r\<lparr>i2h := set_bias (i2h r) k y\<rparr>)) (bias (i2h r) ! k) :> gdot ?G ?T"
      using sh(4) z1 z2 z3
      by (intro path)
        (simp_all add: rderiv_def lderiv_set_bias lderiv_const set_bias_same linear_shape_update)
    moreover have "gdot ?G ?T = bias (grad_i2h ?G) ! k"
      by (simp add: gdot_def ldot_zero_right ldot_set_bias [OF gs(1) k])
    ultimately show "DERIV (\<lambda>y. ?f (r\<lparr>i2h := set_bias (i2h r) k y\<rparr>)) (bias (i2h r) ! k)
          :> bias (grad_i2h ?G) ! k"
      by simp
  qed
  have h2: "layer_gradient (\<lambda>l. ?f (r\<lparr>i2o := l\<rparr>)) (i2o r) (grad_i2o ?G)"
    unfolding layer_gradient_def
  proof (intro conjI allI impI)
    fix k j assume k: "k < length (weight (i2o r))" and j: "j < length (weight (i2o r) ! k)"
    let ?T = "\<lparr>grad_i2h = zero_linear (i2h r),
               grad_i2o = set_weight (zero_linear (i2o r)) k j 1, grad_o2o = zero_linear (o2o r)\<rparr>"
    have "DERIV (\<lambda>y. ?f (r\<lparr>i2o := set_weight (i2o r) k j y\<rparr>)) (weight (i2o r) ! k ! j)
          :> gdot ?G ?T"
      using sh(4) z1 z2 z3
      by (intro path)
        (simp_all add: rderiv_def lderiv_set_weight [OF k] lderiv_const set_weight_same
          linear_shape_update)
    moreover have "gdot ?G ?T = weight (grad_i2o ?G) ! k ! j"
      by (simp add: gdot_def ldot_zero_right ldot_set_weight [OF gs(2) k j])
    ultimately show "DERIV (\<lambda>y. ?f (r\<lparr>i2o := set_weight (i2o r) k j y\<rparr>)) (weight (i2o r) ! k ! j)
          :> weight (grad_i2o ?G) ! k ! j"
      by simp
  next
    fix k assume k: "k < length (bias (i2o r))"
    let ?T = "\<lparr>grad_i2h = zero_linear (i2h r),
               grad_i2o = set_bias (zero_linear (i2o r)) k 1, grad_o2o = zero_linear (o2o r)\<rparr>"
    have "DERIV (\<lambda>y. ?f (r\<lparr>i2o := set_bias (i2o r) k y\<rparr>)) (bias (i2o r) ! k) :> gdot ?G ?T"
      using sh(4) z1 z2 z3
      by (intro path)
        (simp_all add: rderiv_def lderiv_set_bias lderiv_const set_bias_same linear_shape_update)
    moreover have "gdot ?G ?T = bias (grad_i2o ?G) ! k"
      by (simp add: gdot_def ldot_zero_right ldot_set_bias [OF gs(2) k])
    ultimately show "DERIV (\<lambda>y. ?f (r\<lparr>i2o := set_bias (i2o r) k y\<rparr>)) (bias (i2o r) ! k)
          :> bias (grad_i2o ?G) ! k"
      by simp
  qed
  have h3: "layer_gradient (\<lambda>l. ?f (r\<lparr>o2o := l\<rparr>)) (o2o r) (grad_o2o ?G)"
    unfolding layer_gradient_def
  proof (intro conjI allI impI)
    fix k j assume k: "k < length (weight (o2o r))" and j: "j < length (weight (o2o r) ! k)"
    let ?T = "\<lparr>grad_i2h = zero_linear (i2h r), grad_i2o = zero_linear (i2o r),
               grad_o2o = set_weight (zero_linear (o2o r)) k j 1\<rparr>"
    have "DERIV (\<lambda>y. ?f (r\<lparr>o2o := set_weight (o2o r) k j y\<rparr>)) (weight (o2o r) ! k ! j)
          :> gdot ?G ?T"
      using sh(4) z1 z2 z3
      by (intro path)
        (simp_all add: rderiv_def lderiv_set_weight [OF k] lderiv_const set_weight_same
          linear_shape_update)
    moreover have "gdot ?G ?T = weight (grad_o2o ?G) ! k ! j"
      by (simp add: gdot_def ldot_zero_right ldot_set_weight [OF gs(3) k j])
    ultimately show "DERIV (\<lambda>y. ?f (r\<lparr>o2o := set_weight (o2o r) k j y\<rparr>)) (weight (o2o r) ! k ! j)
          :> weight (grad_o2o ?G) ! k ! j"
      by simp
  next
    fix k assume k: "k < length (bias (o2o r))"
    let ?T = "\<lparr>grad_i2h = zero_linear (i2h r), grad_i2o = zero_linear (i2o r),
               grad_o2o = set_bias (zero_linear (o2o r)) k 1\<rparr>"
    have "DERIV (\<lambda>y. ?f (r\<lparr>o2o := set_bias (o2o r) k y\<rparr>)) (bias (o2o r) ! k) :> gdot ?G ?T"
      using sh(4) z1 z2 z3
      by (intro path)
        (simp_all add: rderiv_def lderiv_set_bias lderiv_const set_bias_same linear_shape_update)
    moreover have "gdot ?G ?T = bias (grad_o2o ?G) ! k"
      by (simp add: gdot_def ldot_zero_right ldot_set_bias [OF gs(3) k])
    ultimately show "DERIV (\<lambda>y. ?f (r\<lparr>o2o := set_bias (o2o r) k y\<rparr>)) (bias (o2o r) ! k)
          :> bias (grad_o2o ?G) ! k"
      by simp
  qed
  from h1 h2 h3 show ?thesis by (simp add: is_gradient_def)
qed


subsection \<open>The sample networks\<close>

lemma dot_zero: "dot (replicate n 0) x = 0"
proof -
  have "map2 (*) (replicate n (0::real)) x = replicate (min n (length x)) 0"
    by (intro nth_equalityI) simp_all
  then show ?thesis by (simp add: dot_def sum_list_replicate)
qed

lemma linear_const_apply:
  "length x = n_in \<Longrightarrow> linear_apply (linear_const n_in b) [x] = Inr [b]"
proof -
  assume x: "length x = n_in"
  have "map2 (\<lambda>w c. dot w x + c) (replicate (length b) (replicate n_in 0)) b = b"
    by (intro nth_equalityI) (simp_all add: dot_zero)
  with x show ?thesis
    by (simp add: linear_apply_def linear_const_def list_all_iff)
qed

lemma linear_const_shape: "linear_shape n_in (length b) (linear_const n_in b)"
  by (simp add: linear_shape_def linear_const_def list_all_iff)

lemma rnn_const_RNN: "length b = n_letters \<Longrightarrow> RNN data_sample n_letters 1 n_letters (rnn_const b)"
  using linear_const_shape [of "2 + n_letters + 1" "[0]"]
    linear_const_shape [of "2 + n_letters + 1" "replicate n_letters 0"]
    linear_const_shape [of "1 + n_letters" b]
  by (simp add: RNN_def rnn_const_def data_sample_def)

lemma forward_const:
  assumes "length c = 2" and "length x = n_letters" and "length h = 1"
  shows "forward (rnn_const b) g [c] [x] [h]
         = Inr (log_softmax (apply_mask (g 0) [b]), [[0]], (\<lambda>k. g (Suc k)))"
  using assms by (simp add: forward_def rnn_const_def linear_const_apply dropout_def)

lemma apply_mask_row:
  "apply_mask m [r] = [map (\<lambda>j. if m 0 j then r ! j / (1 - dropout_p) else 0) [0..<length r]]"
proof -
  have "map (\<lambda>(j, v). if m 0 j then v / (1 - dropout_p) else 0) (enumerate 0 r)
        = map (\<lambda>j. if m 0 j then r ! j / (1 - dropout_p) else 0) [0..<length r]"
    by (intro nth_equalityI) (simp_all add: nth_enumerate_eq)
  then show ?thesis by (simp add: apply_mask_def)
qed

subsection \<open>The training loop of the tagger\<close>







subsection \<open>The training loop of the name generator\<close>




lemma categoryTensor_eq:
  assumes "n_categories d = length (all_categories d)" and "c \<in> set (all_categories d)"
  shows "\<exists>li. li < length (all_categories d) \<and> all_categories d ! li = c \<and>
           categoryTensor d c = Inr [one_hot (n_categories d) li]"
proof -
  from index_in [OF assms(2)] obtain li where
    li: "index (all_categories d) c = Inr li" "li < length (all_categories d)"
        "all_categories d ! li = c"
    by blast
  then have "categoryTensor d c = Inr [one_hot (n_categories d) li]"
    using assms(1) by (simp add: categoryTensor_def setitem2_def zeros2_one py_index_0 py_index_nat
        length_zeros1 one_hot_def)
  with li show ?thesis by blast
qed







subsection \<open>The sample data, networks and generators\<close>




lemma RNN_eos: "RNN data_sample n_letters 1 n_letters rnn_eos"
  unfolding rnn_eos_def by (rule rnn_const_RNN) (simp add: n_letters_59)

lemma RNN_a: "RNN data_sample n_letters 1 n_letters rnn_a"
  unfolding rnn_a_def by (rule rnn_const_RNN) (simp add: n_letters_59)





lemma categoryTensor_sample:
  "categoryTensor data_sample (ustr ''Irish'') = Inr [[1, 0]]"
  "categoryTensor data_sample (ustr ''French'') = Inr [[0, 1]]"
  by (simp_all add: categoryTensor_def data_sample_def ustr_def setitem2_def py_index_def
      zeros2_def zeros1_def numeral_2_eq_2)












subsection \<open>Sampling from the sample networks\<close>

lemma log_softmax_single: "log_softmax [r] = [map (\<lambda>v. v - ln (sum_list (map exp r))) r]"
  by (simp add: log_softmax_def)

lemma top_const:
  assumes "k < length b"
    and "\<forall>j<length b. j \<noteq> k \<longrightarrow>
           (if m 0 j then b ! j / (1 - dropout_p) else 0)
           < (if m 0 k then b ! k / (1 - dropout_p) else 0)"
  shows "\<exists>out. log_softmax (apply_mask m [b]) = [out] \<and> out \<noteq> [] \<and> argmax ties out = k"
proof -
  let ?d = "map (\<lambda>j. if m 0 j then b ! j / (1 - dropout_p) else 0) [0..<length b]"
  let ?out = "map (\<lambda>v. v - ln (sum_list (map exp ?d))) ?d"
  have l: "log_softmax (apply_mask m [b]) = [?out]"
    by (simp only: apply_mask_row log_softmax_single)
  have k: "k < length ?out" using assms(1) by simp
  have "\<forall>j<length ?out. j \<noteq> k \<longrightarrow> ?out ! j < ?out ! k"
    using assms by simp
  with k have "argmax ties ?out = k" by (rule argmax_unique)
  moreover from assms(1) have "?out \<noteq> []" by auto
  ultimately show ?thesis using l by blast
qed

lemma sample_loop_const:
  assumes "length c = 2" and "length x = n_letters" and "length h = 1"
    and "k < length b"
    and "\<forall>j<length b. j \<noteq> k \<longrightarrow>
           (if g 0 0 j then b ! j / (1 - dropout_p) else 0)
           < (if g 0 0 k then b ! k / (1 - dropout_p) else 0)"
  shows "sample_loop ties (rnn_const b) [c] (Suc n) ([[x]], [h], name, g)
         = (if k = n_letters - 1 then Inr (name, (\<lambda>i. g (Suc i)))
            else if length all_letters \<le> k then Inl IndexError
            else sample_loop ties (rnn_const b) [c] n
                   ([[one_hot n_letters (letter_slot (all_letters ! k))]], [[0]],
                    name @ [all_letters ! k], (\<lambda>i. g (Suc i))))"
proof -
  from top_const [of k b "g 0" ties, OF assms(4,5)] obtain out where
    out: "log_softmax (apply_mask (g 0) [b]) = [out]" "out \<noteq> []" "argmax ties out = k"
    by blast
  have f: "forward (rnn_const b) g [c] [x] [h] = Inr ([out], [[0]], (\<lambda>i. g (Suc i)))"
    using forward_const [OF assms(1,2,3), of b g] out(1) by simp
  have tk: "topk1 ties [out] = Inr [[k]]"
    using topk1_row [OF out(2), of ties] out(3) by simp
  have it: "inputTensor [all_letters ! k]
            = Inr [[one_hot n_letters (letter_slot (all_letters ! k))]]"
    by (rule inputTensor_letter)
  from f tk it show ?thesis by (simp add: Let_def)
qed

lemma first_letter: "all_letters ! 0 = 97" "letter_slot 97 = 0" "0 < length all_letters"
  by (simp_all add: all_letters_codes letter_slot_def)

lemma top_eos_kept:
  "m 0 (n_letters - 1) \<Longrightarrow>
   \<forall>j<length (1 # replicate (n_letters - 2) 0 @ [2 :: real]). j \<noteq> n_letters - 1 \<longrightarrow>
     (if m 0 j then (1 # replicate (n_letters - 2) 0 @ [2]) ! j / (1 - dropout_p) else 0)
     < (if m 0 (n_letters - 1) then (1 # replicate (n_letters - 2) 0 @ [2]) ! (n_letters - 1) / (1 - dropout_p)
        else 0)"
  by (auto simp: n_letters_59 nth_Cons' nth_append dropout_p_def)

lemma top_eos_dropped:
  assumes "\<not> m 0 (n_letters - 1)" and "m 0 0"
  shows "\<forall>j<length (1 # replicate (n_letters - 2) 0 @ [2 :: real]). j \<noteq> 0 \<longrightarrow>
     (if m 0 j then (1 # replicate (n_letters - 2) 0 @ [2]) ! j / (1 - dropout_p) else 0)
     < (if m 0 0 then (1 # replicate (n_letters - 2) 0 @ [2]) ! 0 / (1 - dropout_p) else 0)"
proof (intro allI impI)
  fix j
  assume j: "j < length (1 # replicate (n_letters - 2) 0 @ [2 :: real])" "j \<noteq> 0"
  show "(if m 0 j then (1 # replicate (n_letters - 2) 0 @ [2]) ! j / (1 - dropout_p) else 0)
     < (if m 0 0 then (1 # replicate (n_letters - 2) 0 @ [2]) ! 0 / (1 - dropout_p) else 0)"
  proof (cases "j = n_letters - 1")
    case True
    with assms show ?thesis by (simp add: dropout_p_def)
  next
    case False
    with j have "j - 1 < n_letters - 2" by (simp add: n_letters_59)
    with j assms(2) show ?thesis by (simp add: nth_Cons' nth_append dropout_p_def)
  qed
qed

lemma top_a:
  "m 0 0 \<Longrightarrow>
   \<forall>j<length (1 # replicate (n_letters - 1) (0 :: real)). j \<noteq> 0 \<longrightarrow>
     (if m 0 j then (1 # replicate (n_letters - 1) 0) ! j / (1 - dropout_p) else 0)
     < (if m 0 0 then (1 # replicate (n_letters - 1) 0) ! 0 / (1 - dropout_p) else 0)"
  by (auto simp: n_letters_59 nth_Cons' dropout_p_def)

lemma sample_loop_eos:
  assumes "length c = 2" and "length x = n_letters" and "length h = 1" and "g 0 0 0"
  shows "sample_loop ties rnn_eos [c] (Suc n) ([[x]], [h], name, g)
         = (if g 0 0 (n_letters - 1) then Inr (name, (\<lambda>k. g (Suc k)))
            else sample_loop ties rnn_eos [c] n
                   ([[one_hot n_letters 0]], [[0]], name @ [97], (\<lambda>k. g (Suc k))))"
proof (cases "g 0 0 (n_letters - 1)")
  case True
  have k: "n_letters - 1 < length (1 # replicate (n_letters - 2) 0 @ [2 :: real])"
    by (simp add: n_letters_59)
  from sample_loop_const [where g = g and ties = ties and n = n and name = name,
      OF assms(1,2,3) k top_eos_kept [of "g 0", OF True]] True
  show ?thesis by (simp add: rnn_eos_def)
next
  case False
  have k: "0 < length (1 # replicate (n_letters - 2) 0 @ [2 :: real])" by simp
  have "0 \<noteq> n_letters - 1" by (simp add: n_letters_59)
  with sample_loop_const [where g = g and ties = ties and n = n and name = name,
      OF assms(1,2,3) k top_eos_dropped [of "g 0", OF False assms(4)]]
    False first_letter
  show ?thesis by (simp add: rnn_eos_def)
qed

lemma sample_loop_a:
  assumes "length c = 2"
  shows "length x = n_letters \<Longrightarrow> length h = 1 \<Longrightarrow>
         sample_loop ties rnn_a [c] n ([[x]], [h], name, keep_all)
         = Inr (name @ replicate n 97, keep_all)"
proof (induction n arbitrary: x h name)
  case 0
  then show ?case by simp
next
  case (Suc n)
  have k: "0 < length (1 # replicate (n_letters - 1) (0 :: real))" by simp
  have m: "keep_all 0 0 0" "(\<lambda>k. keep_all (Suc k)) = keep_all"
    by (simp_all add: keep_all_def)
  have z: "0 \<noteq> n_letters - 1" by (simp add: n_letters_59)
  have l: "length (one_hot n_letters 0) = n_letters" "length [0::real] = 1"
    by (simp_all add: length_one_hot)
  from sample_loop_const [where g = keep_all and ties = ties and n = n and name = name,
      OF assms Suc.prems k top_a [of "keep_all 0", OF m(1)]]
  have "sample_loop ties rnn_a [c] (Suc n) ([[x]], [h], name, keep_all)
        = sample_loop ties rnn_a [c] n ([[one_hot n_letters 0]], [[0]], name @ [97], keep_all)"
    using z first_letter m(2) by (simp add: rnn_a_def)
  also have "\<dots> = Inr ((name @ [97]) @ replicate n 97, keep_all)"
    by (rule Suc.IH [OF l])
  finally show ?case by (simp add: replicate_app_Cons_same)
qed

lemma initHidden_const: "initHidden (rnn_const b) = [[0]]"
  by (simp add: initHidden_def rnn_const_def zeros2_def zeros1_def)

lemma sample_eos_keep_all:
  "sample ties data_sample rnn_eos keep_all (ustr ''French'') [65] = Inr ([65], keep_all)"
proof -
  have m: "max_length = Suc 19" by (simp add: max_length_def)
  have it: "inputTensor [65] = Inr [[one_hot n_letters (letter_slot 65)]]"
    by (rule inputTensor_letter)
  have ih: "initHidden rnn_eos = [[0]]" unfolding rnn_eos_def by (rule initHidden_const)
  have k: "keep_all 0 0 0" "keep_all 0 0 (n_letters - 1)" "(\<lambda>k. keep_all (Suc k)) = keep_all"
    by (simp_all add: keep_all_def)
  have l: "length [0 :: real, 1] = 2" "length (one_hot n_letters (letter_slot 65)) = n_letters"
    "length [0 :: real] = 1"
    by (simp_all add: length_one_hot)
  have "sample_loop ties rnn_eos [[0, 1]] (Suc 19)
          ([[one_hot n_letters (letter_slot 65)]], [[0]], [65], keep_all)
        = Inr ([65], keep_all)"
    using sample_loop_eos [where g = keep_all and ties = ties and n = 19 and name = "[65]", OF l k(1)]
      k(2,3) by simp
  then show ?thesis
    by (simp add: sample_def categoryTensor_sample it ih m del: sample_loop.simps)
qed


lemma sample_a:
  "sample ties data_sample rnn_a keep_all (ustr ''French'') [65]
   = Inr (65 # replicate 20 97, keep_all)"
proof -
  have it: "inputTensor [65] = Inr [[one_hot n_letters (letter_slot 65)]]"
    by (rule inputTensor_letter)
  have ih: "initHidden rnn_a = [[0]]" unfolding rnn_a_def by (rule initHidden_const)
  have "length [0 :: real, 1] = 2" "length (one_hot n_letters (letter_slot 65)) = n_letters"
    "length [0 :: real] = 1"
    by (simp_all add: length_one_hot)
  from sample_loop_a [OF this, of ties 20 "[65]"]
  show ?thesis
    by (simp add: sample_def categoryTensor_sample it ih max_length_def del: sample_loop.simps)
qed



text \<open>
  Claim C8. For a category of the loaded data and a start letter \<open>c\<close>, \<open>sample\<close> returns a
  name that starts with \<open>c\<close> and has between 1 and \<open>max_length + 1 = 21\<close> characters. The
  name is \<open>c\<close> followed by the letters of the top-scoring indices of at most \<open>max_length\<close>
  successive passes of the network, one letter for each index that is not the index
  \<open>n_letters - 1\<close> of the end of the name; that index can only be the last, and fewer than
  \<open>max_length\<close> passes are made only when the last index is that one.
\<close>

theorem sample_terminates_bounded:
  assumes "load_names ud fs = Inr d" and "category \<in> set (all_categories d)"
    and "RNN d n_letters hs n_letters r"
  shows "\<exists>name g' category_tensor input tops.
           sample ties d r g category [c] = Inr (name, g') \<and>
           hd name = c \<and> 1 \<le> length name \<and> length name \<le> max_length + 1 \<and>
           max_length + 1 = 21 \<and>
           categoryTensor d category = Inr category_tensor \<and> inputTensor [c] = Inr input \<and>
           network_run ties r category_tensor (input, initHidden r, g) tops \<and>
           length tops \<le> max_length \<and>
           name = c # map (nth all_letters) (filter (\<lambda>t. t \<noteq> n_letters - 1) tops) \<and>
           (length tops < max_length \<longrightarrow> tops \<noteq> [] \<and> last tops = n_letters - 1)"
proof -
  from load_names_Inr [OF assms(1)] have n: "n_categories d = length (all_categories d)"
    by blast
  from categoryTensor_eq [OF n assms(2)] obtain li where
    ct: "categoryTensor d category = Inr [one_hot (n_categories d) li]" by blast
  let ?ct = "[one_hot (n_categories d) li]"
  let ?x = "[one_hot n_letters (letter_slot c)]"
  have it: "inputTensor [c] = Inr [?x]" by (rule inputTensor_letter)
  have sc: "shape2 1 (n_categories d) ?ct" by (rule shape2_one_hot)
  have sx: "shape2 1 n_letters ?x" by (rule shape2_one_hot)
  from assms(3) have "hidden_size r = hs" by (simp add: RNN_def)
  then have sh: "shape2 1 hs (initHidden r)" by (simp add: initHidden_def shape2_zeros2)
  from sample_loop_run [OF assms(3) sc sx sh,
      where n = max_length and output_name = "[c]" and g = g and ties = ties]
  obtain g' tops where
    sl: "sample_loop ties r ?ct max_length ([?x], initHidden r, [c], g)
         = Inr ([c] @ map (nth all_letters) (filter (\<lambda>t. t \<noteq> n_letters - 1) tops), g')"
    and run: "network_run ties r ?ct ([?x], initHidden r, g) tops"
    and len: "length tops \<le> max_length"
    and early: "length tops < max_length \<longrightarrow> tops \<noteq> [] \<and> last tops = n_letters - 1"
    by blast
  let ?name = "c # map (nth all_letters) (filter (\<lambda>t. t \<noteq> n_letters - 1) tops)"
  have s: "sample ties d r g category [c] = Inr (?name, g')"
    using ct it sl by (simp add: sample_def)
  have "length (filter (\<lambda>t. t \<noteq> n_letters - 1) tops) \<le> max_length"
    by (rule order_trans [OF length_filter_le len])
  then have ln: "length ?name \<le> max_length + 1" by simp
  have m: "max_length + 1 = 21" by (simp add: max_length_def)
  from s ln m ct it run len early show ?thesis
    by (intro exI [of _ ?name] exI [of _ g'] exI [of _ ?ct] exI [of _ "[?x]"] exI [of _ tops]) simp
qed

lemma apply_mask_zero: "apply_mask m [replicate n 0] = [replicate n 0]"
proof -
  have "map (\<lambda>j. if m 0 j then replicate n (0::real) ! j / (1 - dropout_p) else 0) [0..<n]
        = replicate n 0"
    by (intro nth_equalityI) simp_all
  then show ?thesis by (simp add: apply_mask_row)
qed

lemma log_softmax_zero: "log_softmax [replicate n 0] = [replicate n (- ln (real n))]"
  by (simp add: log_softmax_single sum_list_replicate)

lemma forward_zero:
  assumes "length c = 2" and "length x = n_letters" and "length h = 1"
  shows "forward rnn_zero g [c] [x] [h]
         = Inr ([replicate n_letters (- ln (real n_letters))], [[0]], (\<lambda>k. g (Suc k)))"
  using forward_const [OF assms, of "replicate n_letters 0" g]
  by (simp only: rnn_zero_def apply_mask_zero log_softmax_zero)

text \<open>
  On the sample data and for every choice of \<open>topk\<close> among equal scores, the network that
  prefers the end of the name gives the name \<open>A\<close> of one character, and the network that
  prefers the letter \<open>a\<close> gives \<open>A\<close> followed by 20 times \<open>a\<close>, of 21 characters.
\<close>

theorem sample_terminates_bounded_witness:
  "\<forall>ties.
   load_names unicodedata_sample fs_sample = Inr data_sample \<and>
   ustr ''French'' \<in> set (all_categories data_sample) \<and>
   RNN data_sample n_letters 1 n_letters rnn_eos \<and>
   RNN data_sample n_letters 1 n_letters rnn_a \<and>
   sample ties data_sample rnn_eos keep_all (ustr ''French'') [65] = Inr ([65], keep_all) \<and>
   sample ties data_sample rnn_a keep_all (ustr ''French'') [65]
     = Inr (65 # replicate 20 97, keep_all) \<and>
   (\<exists>tops. network_run ties rnn_eos [[0, 1]]
             ([[one_hot n_letters (letter_slot 65)]], initHidden rnn_eos, keep_all) tops \<and>
      length tops \<le> max_length \<and>
      [65] = 65 # map (nth all_letters) (filter (\<lambda>t. t \<noteq> n_letters - 1) tops)) \<and>
   (\<exists>tops. network_run ties rnn_a [[0, 1]]
             ([[one_hot n_letters (letter_slot 65)]], initHidden rnn_a, keep_all) tops \<and>
      length tops = max_length \<and>
      65 # replicate 20 97 = 65 # map (nth all_letters) (filter (\<lambda>t. t \<noteq> n_letters - 1) tops))"
proof
  fix ties
  have mem: "ustr ''French'' \<in> set (all_categories data_sample)"
    by (simp add: data_sample_def)
  have c: "categoryTensor data_sample (ustr ''French'') = Inr [[0, 1]]"
    by (rule categoryTensor_sample)
  have i: "inputTensor [65] = Inr [[one_hot n_letters (letter_slot 65)]]"
    by (rule inputTensor_letter)
  from sample_terminates_bounded [OF load_names_sample mem RNN_eos, of ties keep_all 65]
  obtain name g' category_tensor input tops where
    w: "sample ties data_sample rnn_eos keep_all (ustr ''French'') [65] = Inr (name, g')"
       "categoryTensor data_sample (ustr ''French'') = Inr category_tensor"
       "inputTensor [65] = Inr input"
       "network_run ties rnn_eos category_tensor (input, initHidden rnn_eos, keep_all) tops"
       "length tops \<le> max_length"
       "name = 65 # map (nth all_letters) (filter (\<lambda>t. t \<noteq> n_letters - 1) tops)"
    by blast
  from w(1) have nm: "name = [65]" by (simp add: sample_eos_keep_all)
  from w(2,3) c i have ci: "category_tensor = [[0, 1]]"
    "input = [[one_hot n_letters (letter_slot 65)]]"
    by simp_all
  from w(4,5,6) nm ci have e:
    "\<exists>tops. network_run ties rnn_eos [[0, 1]]
             ([[one_hot n_letters (letter_slot 65)]], initHidden rnn_eos, keep_all) tops \<and>
      length tops \<le> max_length \<and>
      [65] = 65 # map (nth all_letters) (filter (\<lambda>t. t \<noteq> n_letters - 1) tops)"
    by blast
  from sample_terminates_bounded [OF load_names_sample mem RNN_a, of ties keep_all 65]
  obtain name g' category_tensor input tops where
    v: "sample ties data_sample rnn_a keep_all (ustr ''French'') [65] = Inr (name, g')"
       "categoryTensor data_sample (ustr ''French'') = Inr category_tensor"
       "inputTensor [65] = Inr input"
       "network_run ties rnn_a category_tensor (input, initHidden rnn_a, keep_all) tops"
       "length tops \<le> max_length"
       "name = 65 # map (nth all_letters) (filter (\<lambda>t. t \<noteq> n_letters - 1) tops)"
    by blast
  from v(1) have nm': "name = 65 # replicate 20 97" by (simp add: sample_a)
  from v(2,3) c i have ci': "category_tensor = [[0, 1]]"
    "input = [[one_hot n_letters (letter_slot 65)]]"
    by simp_all
  from v(6) nm' have "length (filter (\<lambda>t. t \<noteq> n_letters - 1) tops) = 20"
    by (metis length_map length_replicate list.inject)
  moreover have "length (filter (\<lambda>t. t \<noteq> n_letters - 1) tops) \<le> length tops"
    by (rule length_filter_le)
  moreover from v(5) have "length tops \<le> 20" by (simp add: max_length_def)
  ultimately have lt: "length tops = max_length" unfolding max_length_def by linarith
  from v(4) ci' have
    "network_run ties rnn_a [[0, 1]]
       ([[one_hot n_letters (letter_slot 65)]], initHidden rnn_a, keep_all) tops"
    by simp
  moreover from v(6) nm' have
    "65 # replicate 20 97 = 65 # map (nth all_letters) (filter (\<lambda>t. t \<noteq> n_letters - 1) tops)"
    by simp
  ultimately have a:
    "\<exists>tops. network_run ties rnn_a [[0, 1]]
             ([[one_hot n_letters (letter_slot 65)]], initHidden rnn_a, keep_all) tops \<and>
      length tops = max_length \<and>
      65 # replicate 20 97 = 65 # map (nth all_letters) (filter (\<lambda>t. t \<noteq> n_letters - 1) tops)"
    using lt by blast
  from load_names_sample mem RNN_eos RNN_a sample_eos_keep_all [of ties] sample_a [of ties] e a
  show "load_names unicodedata_sample fs_sample = Inr data_sample \<and>
   ustr ''French'' \<in> set (all_categories data_sample) \<and>
   RNN data_sample n_letters 1 n_letters rnn_eos \<and>
   RNN data_sample n_letters 1 n_letters rnn_a \<and>
   sample ties data_sample rnn_eos keep_all (ustr ''French'') [65] = Inr ([65], keep_all) \<and>
   sample ties data_sample rnn_a keep_all (ustr ''French'') [65]
     = Inr (65 # replicate 20 97, keep_all) \<and>
   (\<exists>tops. network_run ties rnn_eos [[0, 1]]
             ([[one_hot n_letters (letter_slot 65)]], initHidden rnn_eos, keep_all) tops \<and>
      length tops \<le> max_length \<and>
      [65] = 65 # map (nth all_letters) (filter (\<lambda>t. t \<noteq> n_letters - 1) tops)) \<and>
   (\<exists>tops. network_run ties rnn_a [[0, 1]]
             ([[one_hot n_letters (letter_slot 65)]], initHidden rnn_a, keep_all) tops \<and>
      length tops = max_length \<and>
      65 # replicate 20 97 = 65 # map (nth all_letters) (filter (\<lambda>t. t \<noteq> n_letters - 1) tops))"
    by blast
qed


text \<open>
  Claim C2. For a network, a category tensor, an input of \<open>L \<ge> 1\<close> timesteps and targets that
  fit the shapes of the network, \<open>train\<close> makes one forward pass per timestep, each from the
  hidden state that the previous pass left and the first from \<open>initHidden\<close>; the loss of
  timestep \<open>i\<close> is minus the entry of output \<open>i\<close> at target \<open>i\<close>, and the summed loss is the
  sum of these; \<open>train\<close> returns the last output and the summed loss divided by \<open>L\<close>; and
  every entry of every parameter of the network it leaves is the old entry minus
  \<open>learning_rate\<close> times the entry of the gradient that the backward pass on the summed loss
  gave. That gradient has the shapes of the parameters, and each of its entries is the
  derivative of the summed loss of this call with respect to the entry of the parameter.
\<close>

theorem train_one_example:
  assumes "RNN d input_size hs output_size r"
    and "shape2 1 (n_categories d) category_tensor"
    and "input_line_tensor \<noteq> []"
    and "list_all (shape2 1 input_size) input_line_tensor"
    and "length input_line_tensor \<le> length target_line_tensor"
    and "list_all (\<lambda>c. 0 \<le> c \<and> c < int output_size) target_line_tensor"
  shows "(\<exists>outs hidden' g' ls r'.
     forward_all r category_tensor input_line_tensor (initHidden r, g) = Inr (outs, hidden', g') \<and>
     length outs = length input_line_tensor \<and>
     length ls = length input_line_tensor \<and>
     (\<forall>i<length input_line_tensor.
        criterion (outs ! i) [target_line_tensor ! i] = Inr (ls ! i) \<and>
        ls ! i = - (outs ! i ! 0 ! nat (target_line_tensor ! i))) \<and>
     summed_loss r g category_tensor input_line_tensor target_line_tensor = sum_list ls \<and>
     train loss_backward r g category_tensor input_line_tensor target_line_tensor
       = Inr ((last outs, sum_list ls / real (length input_line_tensor)), r', g') \<and>
     parameters r'
       = map2 (\<lambda>p q. map2 (\<lambda>x y. x - learning_rate * y) p q) (parameters r)
           (gradients (loss_backward r g category_tensor input_line_tensor
                         (map (\<lambda>c. [c]) target_line_tensor))) \<and>
     hidden_size r' = hidden_size r \<and> RNN d input_size hs output_size r') \<and>
   grad_shape r
     (loss_backward r g category_tensor input_line_tensor (map (\<lambda>c. [c]) target_line_tensor)) \<and>
   is_gradient (\<lambda>r'. summed_loss r' g category_tensor input_line_tensor target_line_tensor) r
     (loss_backward r g category_tensor input_line_tensor (map (\<lambda>c. [c]) target_line_tensor))"
proof (intro conjI)
  show gs: "grad_shape r
     (loss_backward r g category_tensor input_line_tensor (map (\<lambda>c. [c]) target_line_tensor))"
    by (rule loss_backward_shape(1) [OF assms(1,2,4,5,6)])
  show "\<exists>outs hidden' g' ls r'.
     forward_all r category_tensor input_line_tensor (initHidden r, g) = Inr (outs, hidden', g') \<and>
     length outs = length input_line_tensor \<and>
     length ls = length input_line_tensor \<and>
     (\<forall>i<length input_line_tensor.
        criterion (outs ! i) [target_line_tensor ! i] = Inr (ls ! i) \<and>
        ls ! i = - (outs ! i ! 0 ! nat (target_line_tensor ! i))) \<and>
     summed_loss r g category_tensor input_line_tensor target_line_tensor = sum_list ls \<and>
     train loss_backward r g category_tensor input_line_tensor target_line_tensor
       = Inr ((last outs, sum_list ls / real (length input_line_tensor)), r', g') \<and>
     parameters r'
       = map2 (\<lambda>p q. map2 (\<lambda>x y. x - learning_rate * y) p q) (parameters r)
           (gradients (loss_backward r g category_tensor input_line_tensor
                         (map (\<lambda>c. [c]) target_line_tensor))) \<and>
     hidden_size r' = hidden_size r \<and> RNN d input_size hs output_size r'"
    by (rule train_spec [where backward = loss_backward, OF assms gs])
  show "is_gradient (\<lambda>r'. summed_loss r' g category_tensor input_line_tensor target_line_tensor) r
     (loss_backward r g category_tensor input_line_tensor (map (\<lambda>c. [c]) target_line_tensor))"
    by (rule loss_backward_is_gradient [OF assms])
qed

lemma softmax_small:
  "softmax [0, 1] = [1 - small_p, small_p]" "softmax [0, 2] = [small_q, 1 - small_q]"
proof -
  have "1 + exp (1::real) \<noteq> 0" "1 + exp (2::real) \<noteq> 0"
    using exp_gt_zero [of "1::real"] exp_gt_zero [of "2::real"] by linarith+
  then show "softmax [0, 1] = [1 - small_p, small_p]" "softmax [0, 2] = [small_q, 1 - small_q]"
    by (simp_all add: softmax_def small_p_def small_q_def field_simps)
qed

lemma loss_backward_small:
  "loss_backward rnn_small keep_all [[0, 1]] [[[1, 0]], [[1, 0]]] [[0], [1]] = grad_small"
  by (simp add: loss_backward_def rnn_small_def initHidden_def zeros2_def zeros1_def
      keep_all_def dropout_p_def affine_def dot_def masked_def softmax_small Let_def outer_def
      transposed_apply_def add_linear_def zero_grad_def zero_linear_def numeral_2_eq_2
      grad_small_def)

lemma forward_all_small:
  "forward_all rnn_small [[0, 1]] [[[1, 0]], [[1, 0]]] (initHidden rnn_small, keep_all)
   = Inr ([[[- ln (1 + exp 1), 1 - ln (1 + exp 1)]], [[- ln (1 + exp 2), 2 - ln (1 + exp 2)]]],
          [[2]], keep_all)"
  by (simp add: rnn_small_def initHidden_def zeros2_def zeros1_def keep_all_def dropout_p_def
      dot_def forward_def linear_apply_def dropout_def apply_mask_def log_softmax_def)

lemma train_loop_small:
  "train_loop rnn_small [[0, 1]] [[[1, 0]], [[1, 0]]] [[0], [1]] [0, Suc 0]
     (None, initHidden rnn_small, IntZero, keep_all)
   = Inr (Some [[- ln (1 + exp 2), 2 - ln (1 + exp 2)]], [[2]],
          LossTensor (ln (1 + exp 1) + (ln (1 + exp 2) - 2)), keep_all)"
  by (simp add: rnn_small_def initHidden_def zeros2_def zeros1_def keep_all_def dropout_p_def
      dot_def Let_def forward_def linear_apply_def dropout_def apply_mask_def log_softmax_def
      criterion_def add_loss_def)

lemma update_small: "update_parameters rnn_small grad_small = Inr rnn_small_trained"
  by (simp add: rnn_small_def grad_small_def rnn_small_trained_def update_parameters_def
      update_linear_def add_1_def add_2_def)

lemma train_small:
  "train loss_backward rnn_small keep_all [[0, 1]] [[[1, 0]], [[1, 0]]] [0, 1]
   = Inr (([[- ln (1 + exp 2), 2 - ln (1 + exp 2)]],
           (ln (1 + exp 1) + (ln (1 + exp 2) - 2)) / 2), rnn_small_trained, keep_all)"
  by (simp add: train_def train_loop_small loss_backward_small update_small numeral_2_eq_2
      del: train_loop.simps)

lemma summed_loss_small:
  "summed_loss rnn_small keep_all [[0, 1]] [[[1, 0]], [[1, 0]]] [0, 1]
   = ln (1 + exp 1) + (ln (1 + exp 2) - 2)"
  by (simp add: summed_loss_def train_loop_small numeral_2_eq_2 del: train_loop.simps)

lemma rnn_small_changed: "rnn_small_trained \<noteq> rnn_small"
proof -
  have "0 < small_q" using exp_gt_zero [of "2::real"] by (simp add: small_q_def add_pos_pos)
  then have "1 - learning_rate * (- small_q) \<noteq> 1" by (simp add: learning_rate_def)
  then show ?thesis by (simp add: rnn_small_trained_def rnn_small_def)
qed

text \<open>
  The small network on an input of two timesteps with the targets 0 and 1, when dropout
  keeps every entry: the second pass starts from the hidden state 1 that the first left and
  leaves 2; the summed loss is the sum of the two losses and \<open>train\<close> returns half of it
  with the second output; the gradient of the bias of \<open>i2h\<close>, \<open>small_p - 2 * small_q\<close>, has
  \<open>small_p - small_q\<close> from the first timestep, of which \<open>- small_q\<close> came back from the
  second through the hidden state, and \<open>- small_q\<close> from the second; and the network that
  \<open>train\<close> leaves differs from the one it was given.
\<close>

theorem train_one_example_witness:
  "RNN data_sample 2 1 2 rnn_small \<and>
   shape2 1 (n_categories data_sample) [[0, 1]] \<and>
   [[[1, 0]], [[1, 0 :: real]]] \<noteq> [] \<and>
   list_all (shape2 1 2) [[[1, 0]], [[1, 0]]] \<and>
   length [[[1, 0]], [[1, 0 :: real]]] \<le> length [0, 1 :: int] \<and>
   list_all (\<lambda>c. 0 \<le> c \<and> c < int 2) [0, 1] \<and>
   forward_all rnn_small [[0, 1]] [[[1, 0]], [[1, 0]]] (initHidden rnn_small, keep_all)
     = Inr ([[[- ln (1 + exp 1), 1 - ln (1 + exp 1)]], [[- ln (1 + exp 2), 2 - ln (1 + exp 2)]]],
            [[2]], keep_all) \<and>
   summed_loss rnn_small keep_all [[0, 1]] [[[1, 0]], [[1, 0]]] [0, 1]
     = ln (1 + exp 1) + (ln (1 + exp 2) - 2) \<and>
   loss_backward rnn_small keep_all [[0, 1]] [[[1, 0]], [[1, 0]]] [[0], [1]] = grad_small \<and>
   is_gradient (\<lambda>r. summed_loss r keep_all [[0, 1]] [[[1, 0]], [[1, 0]]] [0, 1]) rnn_small
     grad_small \<and>
   train loss_backward rnn_small keep_all [[0, 1]] [[[1, 0]], [[1, 0]]] [0, 1]
     = Inr (([[- ln (1 + exp 2), 2 - ln (1 + exp 2)]],
             (ln (1 + exp 1) + (ln (1 + exp 2) - 2)) / 2), rnn_small_trained, keep_all) \<and>
   rnn_small_trained \<noteq> rnn_small"
proof -
  have h1: "RNN data_sample 2 1 2 rnn_small"
    by (simp add: RNN_def rnn_small_def linear_shape_def data_sample_def)
  have h2: "shape2 1 (n_categories data_sample) [[0, 1]]"
    by (simp add: shape2_def data_sample_def)
  have h3: "[[[1, 0]], [[1, 0 :: real]]] \<noteq> []" by simp
  have h4: "list_all (shape2 1 2) [[[1, 0]], [[1, 0]]]" by (simp add: shape2_def)
  have h5: "length [[[1, 0]], [[1, 0 :: real]]] \<le> length [0, 1 :: int]" by simp
  have h6: "list_all (\<lambda>c. 0 \<le> c \<and> c < int 2) [0, 1]" by simp
  from train_one_example [OF h1 h2 h3 h4 h5 h6, of keep_all]
  have "is_gradient (\<lambda>r. summed_loss r keep_all [[0, 1]] [[[1, 0]], [[1, 0]]] [0, 1]) rnn_small
          (loss_backward rnn_small keep_all [[0, 1]] [[[1, 0]], [[1, 0]]] (map (\<lambda>c. [c]) [0, 1]))"
    by blast
  then have g: "is_gradient (\<lambda>r. summed_loss r keep_all [[0, 1]] [[[1, 0]], [[1, 0]]] [0, 1])
                  rnn_small grad_small"
    by (simp add: loss_backward_small)
  from h1 h2 h3 h4 h5 h6 forward_all_small summed_loss_small loss_backward_small g train_small
    rnn_small_changed
  show ?thesis by (intro conjI)
qed

end
